theory Spec2Isabelle
  imports Main "HOL-Library.Word"
begin

section \<open>Bytes, C strings and the allocator\<close>

text \<open>
  The man-page viewer (\<^verbatim>\<open>src/man/main.c\<close>) works on \<^verbatim>\<open>unsigned char\<close> buffers.
  A byte is an 8-bit word; a memory region is the list of its bytes, a pointer into
  it is an index, and a read at an index outside the region is the error
  \<open>ReadOutOfBounds\<close> rather than an unspecified value.
\<close>

type_synonym byte = "8 word"

definition bytes :: "string \<Rightarrow> byte list" where
  "bytes s = map of_char s"

text \<open>\<^verbatim>\<open>isspace\<close> in the C locale: space, and the five controls from tab to carriage return.\<close>

definition isspace :: "byte \<Rightarrow> bool" where
  "isspace c \<longleftrightarrow> c = 0x20 \<or> c = 0x09 \<or> c = 0x0a \<or> c = 0x0b \<or> c = 0x0c \<or> c = 0x0d"

datatype parse_error =
    DuplicateTitle            \<comment> \<open>"found a second title"\<close>
  | EmptyTitle                \<comment> \<open>"bogus empty title"\<close>
  | TitleExtractionFailed     \<comment> \<open>"couldn't extract title"\<close>
  | SectionExtractionFailed   \<comment> \<open>"couldn't extract section"\<close>
  | NoTitle                   \<comment> \<open>"no title found"\<close>
  | AllocFailed               \<comment> \<open>malloc or strndup returned NULL\<close>
  | NullPointer               \<comment> \<open>a NULL pointer is dereferenced\<close>
  | ReadOutOfBounds           \<comment> \<open>a byte outside the buffer is read\<close>
  | TrieIndexOutOfRange       \<comment> \<open>\<^verbatim>\<open>next[i]\<close> with \<open>i\<close> outside the 0x80 child slots\<close>

definition rd :: "byte list \<Rightarrow> nat \<Rightarrow> parse_error + byte" where
  "rd mem i = (if i < length mem then Inr (mem ! i) else Inl ReadOutOfBounds)"

text \<open>
  \<^verbatim>\<open>size_t\<close> is 64 bits wide. Sizes are natural numbers below \<open>2 ^ 64\<close>, and the two
  operations of the source that can wrap are written out.
\<close>

definition size_dec :: "nat \<Rightarrow> nat" where
  "size_dec n = (if n = 0 then 2 ^ 64 - 1 else n - 1)"

definition size_sub :: "nat \<Rightarrow> nat \<Rightarrow> nat" where
  "size_sub a b = (if b \<le> a then a - b else 2 ^ 64 - (b - a))"

text \<open>A pointer difference handed to a \<^verbatim>\<open>size_t\<close> parameter: a negative one wraps.\<close>

definition size_of_diff :: "int \<Rightarrow> nat" where
  "size_of_diff d = nat (d mod 2 ^ 64)"

text \<open>
  The allocator is an oracle: \<open>ok k\<close> tells whether the \<open>k\<close>-th allocation of the run
  succeeds. Every function that allocates takes the oracle and the number of
  allocations made so far, and returns the new count.
\<close>

type_synonym heap = "nat \<Rightarrow> bool"

text \<open>
  \<^verbatim>\<open>strndup(p, n)\<close> on a buffer: copies bytes from index \<open>p\<close> up to the first NUL, at
  most \<open>n\<close> of them. It reads on until it has seen \<open>n\<close> bytes or a NUL, so it leaves
  the buffer when neither happens before the buffer ends.
\<close>

definition strndup :: "byte list \<Rightarrow> nat \<Rightarrow> nat \<Rightarrow> parse_error + byte list" where
  "strndup mem p n =
     (let avail = drop p mem; s = takeWhile (\<lambda>b. b \<noteq> 0) avail in
      if n \<le> length s then Inr (take n s)
      else if length s < length avail then Inr s
      else Inl ReadOutOfBounds)"

section \<open>The macro table\<close>

datatype ltypes =
    LINE_UNKNOWN | LINE_COMMENT
  | LINE_B | LINE_BI | LINE_BR | LINE_I | LINE_IB | LINE_IR
  | LINE_RB | LINE_RI | LINE_SB | LINE_SM
  | LINE_EE | LINE_EX | LINE_RE | LINE_RS
  | LINE_SH | LINE_SS | LINE_TH
  | LINE_IP | LINE_LP | LINE_P | LINE_PP
  | LINE_TP | LINE_TQ
  | LINE_ME | LINE_MT | LINE_UE | LINE_UR
  | LINE_OP | LINE_SY | LINE_YS

datatype ttypes =
    TROFF_UNKNOWN | TROFF_COMMENT | TROFF_FONT | TROFF_STRUCTURE
  | TROFF_PARAGRAPH | TROFF_HYPERLINK | TROFF_SYNOPSIS

record trofftype =
  ltype :: ltypes
  symbol :: "byte list"
  ttype :: ttypes

definition mk :: "ltypes \<Rightarrow> string \<Rightarrow> ttypes \<Rightarrow> trofftype" where
  "mk l s t = \<lparr>ltype = l, symbol = bytes s, ttype = t\<rparr>"

definition trofftypes :: "trofftype list" where
  "trofftypes =
    [ mk LINE_UNKNOWN [] TROFF_UNKNOWN,
      mk LINE_COMMENT [CHR 0x5C, CHR 0x22] TROFF_COMMENT,
      mk LINE_B ''B'' TROFF_FONT, mk LINE_BI ''BI'' TROFF_FONT, mk LINE_BR ''BR'' TROFF_FONT,
      mk LINE_I ''I'' TROFF_FONT, mk LINE_IB ''IB'' TROFF_FONT, mk LINE_IR ''IR'' TROFF_FONT,
      mk LINE_EE ''EE'' TROFF_STRUCTURE, mk LINE_EX ''EX'' TROFF_STRUCTURE,
      mk LINE_RE ''RE'' TROFF_STRUCTURE, mk LINE_RS ''RS'' TROFF_STRUCTURE,
      mk LINE_SH ''SH'' TROFF_STRUCTURE, mk LINE_SS ''SS'' TROFF_STRUCTURE,
      mk LINE_TH ''TH'' TROFF_STRUCTURE,
      mk LINE_IP ''IP'' TROFF_PARAGRAPH, mk LINE_LP ''LP'' TROFF_PARAGRAPH,
      mk LINE_P ''P'' TROFF_PARAGRAPH, mk LINE_PP ''PP'' TROFF_PARAGRAPH,
      mk LINE_TP ''TP'' TROFF_PARAGRAPH, mk LINE_TQ ''TQ'' TROFF_PARAGRAPH,
      mk LINE_ME ''ME'' TROFF_HYPERLINK, mk LINE_MT ''MT'' TROFF_HYPERLINK,
      mk LINE_UE ''UE'' TROFF_HYPERLINK, mk LINE_UR ''UR'' TROFF_HYPERLINK,
      mk LINE_OP ''OP'' TROFF_SYNOPSIS, mk LINE_SY ''SY'' TROFF_SYNOPSIS,
      mk LINE_YS ''YS'' TROFF_SYNOPSIS ]"

section \<open>The trie\<close>

text \<open>
  \<^verbatim>\<open>struct troffnode\<close>: an array of 0x80 child pointers and a descriptor pointer;
  NULL is \<open>None\<close>. A node fresh from \<^verbatim>\<open>memset(n, 0, sizeof(*n))\<close> is \<open>zero_node\<close>.
\<close>

datatype troffnode =
  Troffnode (node_next: "troffnode option list") (node_ttype: "trofftype option")

definition zero_node :: troffnode where
  "zero_node = Troffnode (replicate 0x80 None) None"

datatype trie_error = IllegalSymbol | DuplicateCommand | TrieAllocFailed | SlotOutOfRange

text \<open>
  The inner loop of \<^verbatim>\<open>trofftrie\<close>, for one descriptor \<open>t\<close>: walk the remaining symbol
  bytes from node \<open>n\<close>, allocating the missing children, and tag the last node.
  The source updates the nodes in place; here the path is rebuilt. A symbol is a C
  string, so a NUL byte ends it as the end of the list does. \<^verbatim>\<open>char\<close> is signed.
\<close>

fun trie_insert ::
  "heap \<Rightarrow> trofftype \<Rightarrow> byte list \<Rightarrow> troffnode \<Rightarrow> nat \<Rightarrow> trie_error + troffnode \<times> nat" where
  "trie_insert ok t [] n k =
     (if node_ttype n \<noteq> None then Inl DuplicateCommand
      else Inr (Troffnode (node_next n) (Some t), k))"
| "trie_insert ok t (s # ss) n k =
     (if s = 0 then trie_insert ok t [] n k
      else if sint s < 0 then Inl IllegalSymbol
      else if unat s > 0x80 then Inl IllegalSymbol
      else if unat s \<ge> length (node_next n) then Inl SlotOutOfRange
      else
        (case (case node_next n ! unat s of
                 None \<Rightarrow> if ok k then Inr (zero_node, Suc k) else Inl TrieAllocFailed
               | Some c \<Rightarrow> Inr (c, k)) of
           Inl e \<Rightarrow> Inl e
         | Inr (c, k') \<Rightarrow>
             (case trie_insert ok t ss c k' of
                Inl e \<Rightarrow> Inl e
              | Inr (c', k'') \<Rightarrow>
                  Inr (Troffnode ((node_next n)[unat s := Some c']) (node_ttype n), k''))))"

text \<open>\<^verbatim>\<open>strlen\<close> of a symbol: the bytes before the first NUL.\<close>

definition strlen :: "byte list \<Rightarrow> nat" where
  "strlen s = length (takeWhile (\<lambda>b. b \<noteq> 0) s)"

text \<open>The outer loop of \<^verbatim>\<open>trofftrie\<close> over the table; empty symbols are skipped.\<close>

fun trie_fill :: "heap \<Rightarrow> trofftype list \<Rightarrow> troffnode \<Rightarrow> nat \<Rightarrow> trie_error + troffnode \<times> nat" where
  "trie_fill ok [] root k = Inr (root, k)"
| "trie_fill ok (t # ts) root k =
     (if strlen (symbol t) = 0 then trie_fill ok ts root k
      else (case trie_insert ok t (symbol t) root k of
              Inl e \<Rightarrow> Inl e
            | Inr (root', k') \<Rightarrow> trie_fill ok ts root' k'))"

text \<open>
  \<^verbatim>\<open>trofftrie\<close>, over a table given as a parameter; the program calls it on
  \<open>trofftypes\<close>. On any error the partial trie is destroyed and NULL returned.
\<close>

definition trofftrie :: "heap \<Rightarrow> trofftype list \<Rightarrow> nat \<Rightarrow> trie_error + troffnode \<times> nat" where
  "trofftrie ok table k =
     (if \<not> ok k then Inl TrieAllocFailed
      else trie_fill ok table zero_node (Suc k))"

text \<open>
  \<^verbatim>\<open>get_type\<close>: the pointer \<^verbatim>\<open>*ws\<close> is an index into \<open>mem\<close>, returned with the
  descriptor (\<open>None\<close> is the NULL of "no match"). The array \<^verbatim>\<open>next\<close> has 0x80 slots,
  and the guard of the source lets the index 0x80 through.
\<close>

function get_type_loop ::
  "troffnode \<Rightarrow> byte list \<Rightarrow> nat \<Rightarrow> nat \<Rightarrow> parse_error + trofftype option \<times> nat" where
  "get_type_loop trie mem ws len =
     (if len = 0 then Inr (node_ttype trie, ws)
      else (case rd mem ws of
              Inl e \<Rightarrow> Inl e
            | Inr c \<Rightarrow>
                if isspace c \<or> c = 0 then Inr (node_ttype trie, ws)
                else if unat c > 0x80 then Inr (None, ws)
                else if unat c \<ge> length (node_next trie) then Inl TrieIndexOutOfRange
                else (case node_next trie ! unat c of
                        None \<Rightarrow> Inr (None, ws)
                      | Some trie' \<Rightarrow> get_type_loop trie' mem (ws + 1) (len - 1))))"
  by pat_completeness auto
termination
  by (relation "measure (\<lambda>(trie, mem, ws, len). len)") auto

definition get_type ::
  "troffnode \<Rightarrow> byte list \<Rightarrow> nat \<Rightarrow> nat \<Rightarrow> parse_error + trofftype option \<times> nat" where
  "get_type trie mem ws len =
     (case rd mem ws of
        Inl e \<Rightarrow> Inl e
      | Inr c \<Rightarrow>
          if c \<noteq> 0x2e then Inr (None, ws)
          else get_type_loop trie mem (ws + 1) (size_dec len))"

section \<open>The document and the title lexer\<close>

text \<open>
  \<^verbatim>\<open>pagenode\<close> and \<^verbatim>\<open>pagedom\<close>. The parser allocates the root node and assigns only
  its text; \<^verbatim>\<open>level\<close>, \<^verbatim>\<open>subs\<close> and \<^verbatim>\<open>subcount\<close> are never written or read by
  the functions modelled here, so the node is its text. A NULL pointer is \<open>None\<close>.
\<close>

record pagenode =
  node_text :: "byte list option"

record pagedom =
  dom_root :: "pagenode option"
  dom_trie :: "troffnode option"
  dom_title :: "byte list option"
  dom_section :: "byte list option"
  dom_version :: "byte list option"

definition empty_dom :: pagedom where
  "empty_dom = \<lparr>dom_root = None, dom_trie = None, dom_title = None,
                 dom_section = None, dom_version = None\<rparr>"

definition dom_get_title :: "pagedom \<Rightarrow> byte list option" where
  "dom_get_title dm = dom_title dm"

text \<open>
  Inside \<^verbatim>\<open>lex_title\<close> a \<^verbatim>\<open>const char*\<close> into the NUL-terminated text is the list of
  the characters from the pointer on: \<open>deref\<close> reads \<^verbatim>\<open>*p\<close> (the terminator at the
  end of the list), \<open>tl\<close> is \<^verbatim>\<open>++p\<close>, which the source only does on a character
  it has seen not to be NUL.
\<close>

definition deref :: "byte list \<Rightarrow> byte" where
  "deref p = (case p of [] \<Rightarrow> 0 | c # _ \<Rightarrow> c)"

text \<open>\<^verbatim>\<open>while(isspace(*tok)) ++tok;\<close>\<close>

fun skip_space :: "byte list \<Rightarrow> byte list" where
  "skip_space [] = []"
| "skip_space (c # cs) = (if isspace c then skip_space cs else c # cs)"

text \<open>
  The token loop \<^verbatim>\<open>while(*endtok){...; ++endtok;}\<close>: from the quoting state and
  \<^verbatim>\<open>endtok\<close> to the final quoting state, the number of increments and the final
  \<^verbatim>\<open>endtok\<close>.
\<close>

fun token_loop :: "bool \<Rightarrow> byte list \<Rightarrow> bool \<times> nat \<times> byte list" where
  "token_loop quoted [] = (quoted, 0, [])"
| "token_loop quoted (c # cs) =
     (if c = 0 then (quoted, 0, c # cs)
      else if \<not> quoted then
        (if isspace c then (quoted, 0, c # cs)
         else if c = 0x22 then (True, 0, c # cs)
         else (case token_loop quoted cs of (q, n, e) \<Rightarrow> (q, Suc n, e)))
      else
        (if c = 0x22 then (False, 0, c # cs)
         else (case token_loop quoted cs of (q, n, e) \<Rightarrow> (q, Suc n, e))))"

text \<open>\<^verbatim>\<open>strndup\<close> on a pointer into a C string; NULL when the allocation fails.\<close>

definition strndup_str :: "heap \<Rightarrow> nat \<Rightarrow> byte list \<Rightarrow> nat \<Rightarrow> byte list option" where
  "strndup_str ok k p n = (if ok k then Some (take n (takeWhile (\<lambda>b. b \<noteq> 0) p)) else None)"

text \<open>
  \<^verbatim>\<open>lex_title\<close>. The result is the return value (\<open>Inr ()\<close> for 0, \<open>Inl e\<close> for -1 with
  the message printed), the document as the call leaves it, and the allocation count.
  The two \<^verbatim>\<open>strndup\<close> results are stored unchecked, as in the source.
\<close>

definition lex_title :: "heap \<Rightarrow> pagedom \<Rightarrow> nat \<Rightarrow> (parse_error + unit) \<times> pagedom \<times> nat" where
  "lex_title ok dm k =
     (case dom_root dm of
        None \<Rightarrow> (Inl NullPointer, dm, k)
      | Some r \<Rightarrow>
     (case node_text r of
        None \<Rightarrow> (Inl NullPointer, dm, k)
      | Some txt \<Rightarrow>
     (let tok0 = skip_space txt;
          quoted0 = (deref tok0 = 0x22);
          tok = (if quoted0 then tl tok0 else tok0)
      in if deref tok = 0 then (Inl TitleExtractionFailed, dm, k)
      else (case token_loop quoted0 (tl tok) of (quoted1, n, endtok) \<Rightarrow>
        if deref endtok = 0 then (Inl TitleExtractionFailed, dm, k)
        else
          (let dm1 = dm\<lparr>dom_title := strndup_str ok k tok (Suc n)\<rparr>;
               k1 = Suc k;
               tok1 = tl endtok
           in if deref tok1 = 0 then (Inl SectionExtractionFailed, dm1, k1)
           else
             (let tok2 = (if \<not> quoted1 then skip_space tok1 else tok1);
                  quoted2 = (if \<not> quoted1 then deref tok2 = 0x22 else quoted1);
                  tok3 = (if \<not> quoted1 \<and> quoted2 then tl tok2 else tok2)
              in if \<not> quoted1 \<and> deref tok3 = 0 then (Inl SectionExtractionFailed, dm1, k1)
              else (case token_loop quoted2 (tl tok3) of (quoted3, m, endtok2) \<Rightarrow>
                if deref endtok2 = 0 then (Inl SectionExtractionFailed, dm1, k1)
                else (Inr (), dm1\<lparr>dom_section := strndup_str ok k1 tok3 (Suc m)\<rparr>, Suc k1))))))))"

section \<open>The line scanner\<close>

text \<open>
  The end-of-line loop of \<^verbatim>\<open>troff_parse\<close>:
  \<^verbatim>\<open>while(left && *eol != '\n' && *eol){ ++eol; --left; }\<close>
\<close>

function find_eol :: "byte list \<Rightarrow> nat \<Rightarrow> nat \<Rightarrow> parse_error + nat \<times> nat" where
  "find_eol mem eol left =
     (if left = 0 then Inr (eol, left)
      else (case rd mem eol of
              Inl e \<Rightarrow> Inl e
            | Inr c \<Rightarrow>
                if c = 0x0a \<or> c = 0 then Inr (eol, left)
                else find_eol mem (eol + 1) (left - 1)))"
  by pat_completeness auto
termination
  by (relation "measure (\<lambda>(mem, eol, left). left)") auto

text \<open>
  The "functional end of line": \<^verbatim>\<open>feol = eol; if(left && *eol == '\n') --feol;\<close>.
  It can be one below an index, so it is an integer.
\<close>

definition find_feol :: "byte list \<Rightarrow> nat \<Rightarrow> nat \<Rightarrow> parse_error + int" where
  "find_feol mem eol left =
     (if left = 0 then Inr (int eol)
      else (case rd mem eol of
              Inl e \<Rightarrow> Inl e
            | Inr c \<Rightarrow> if c = 0x0a then Inr (int eol - 1) else Inr (int eol)))"

text \<open>The body of \<^verbatim>\<open>if(node->ltype == LINE_TH){...}\<close>.\<close>

definition title_line ::
  "heap \<Rightarrow> byte list \<Rightarrow> nat \<Rightarrow> int \<Rightarrow> pagedom \<Rightarrow> nat \<Rightarrow> (parse_error + unit) \<times> pagedom \<times> nat" where
  "title_line ok mem ws feol dm k =
     (if dom_get_title dm \<noteq> None then (Inl DuplicateTitle, dm, k)
      else if int ws = feol \<or> int ws + 1 = feol then (Inl EmptyTitle, dm, k)
      else if \<not> ok k then (Inl AllocFailed, dm\<lparr>dom_root := None\<rparr>, Suc k)
      else
        (case strndup mem (ws + 1) (size_of_diff (feol - (int ws + 1))) of
           Inl e \<Rightarrow> (Inl e, dm\<lparr>dom_root := Some \<lparr>node_text = None\<rparr>\<rparr>, Suc k)
         | Inr txt \<Rightarrow>
             if \<not> ok (Suc k)
             then (Inl AllocFailed, dm\<lparr>dom_root := Some \<lparr>node_text = None\<rparr>\<rparr>, Suc (Suc k))
             else lex_title ok (dm\<lparr>dom_root := Some \<lparr>node_text = Some txt\<rparr>\<rparr>) (Suc (Suc k))))"

text \<open>
  One iteration of the \<^verbatim>\<open>for\<close> loop of \<^verbatim>\<open>troff_parse\<close>, up to the title
  handling: the line starts at index \<open>line\<close>, \<open>mlen - off\<close> bytes are left. The
  result is the error of an early \<^verbatim>\<open>return -1\<close>, or \<^verbatim>\<open>eol\<close>.
\<close>

definition parse_line ::
  "heap \<Rightarrow> troffnode \<Rightarrow> byte list \<Rightarrow> nat \<Rightarrow> nat \<Rightarrow> nat \<Rightarrow> pagedom \<Rightarrow> nat
     \<Rightarrow> (parse_error + nat) \<times> pagedom \<times> nat" where
  "parse_line ok trie mem mlen off line dm k =
     (case get_type trie mem line (mlen - off) of
        Inl e \<Rightarrow> (Inl e, dm, k)
      | Inr (node, ws) \<Rightarrow>
     (case find_eol mem ws (size_sub (mlen - off) (ws - line)) of
        Inl e \<Rightarrow> (Inl e, dm, k)
      | Inr (eol, left) \<Rightarrow>
     (case find_feol mem eol left of
        Inl e \<Rightarrow> (Inl e, dm, k)
      | Inr feol \<Rightarrow>
     (case node of
        None \<Rightarrow> (Inr eol, dm, k)
      | Some t \<Rightarrow>
          if ltype t = LINE_TH
          then (case title_line ok mem ws feol dm k of
                  (Inl e, dm', k') \<Rightarrow> (Inl e, dm', k')
                | (Inr u, dm', k') \<Rightarrow> (Inr eol, dm', k'))
          else (Inr eol, dm, k)))))"

text \<open>
  The \<^verbatim>\<open>for\<close> loop of \<^verbatim>\<open>troff_parse\<close>, with its two loop variables \<^verbatim>\<open>off\<close> and
  \<^verbatim>\<open>line\<close> (an index into \<open>mem\<close>): after a line that did not return, both advance
  (\<^verbatim>\<open>off += eol - line; line = eol + 1; ++off\<close>).
\<close>

function troff_parse_loop ::
  "heap \<Rightarrow> troffnode \<Rightarrow> byte list \<Rightarrow> nat \<Rightarrow> nat \<Rightarrow> nat \<Rightarrow> pagedom \<Rightarrow> nat
     \<Rightarrow> (parse_error + unit) \<times> pagedom \<times> nat" where
  "troff_parse_loop ok trie mem mlen off line dm k =
     (if \<not> off < mlen then (Inr (), dm, k)
      else
        (let r = parse_line ok trie mem mlen off line dm k in
         if isl (fst r) then (Inl (projl (fst r)), snd r)
         else troff_parse_loop ok trie mem mlen
                (off + (projr (fst r) - line) + 1) (projr (fst r) + 1)
                (fst (snd r)) (snd (snd r))))"
  by pat_completeness auto
termination
  by (relation "measure (\<lambda>(ok, trie, mem, mlen, off, line, dm, k). mlen - off)") auto

text \<open>
  \<^verbatim>\<open>troff_parse(map, mlen, dom)\<close>, the trie taken from \<^verbatim>\<open>dom->trie\<close>. Its only caller
  has checked that the trie is not NULL; a NULL trie, which \<^verbatim>\<open>get_type\<close> would
  dereference, is the error \<open>NullPointer\<close>.
\<close>

definition troff_parse ::
  "heap \<Rightarrow> byte list \<Rightarrow> nat \<Rightarrow> pagedom \<Rightarrow> nat \<Rightarrow> (parse_error + unit) \<times> pagedom \<times> nat" where
  "troff_parse ok mem mlen dm k =
     (case dom_trie dm of
        None \<Rightarrow> (Inl NullPointer, dm, k)
      | Some trie \<Rightarrow>
          (case troff_parse_loop ok trie mem mlen 0 0 dm k of
             (Inl e, dm', k') \<Rightarrow> (Inl e, dm', k')
           | (Inr u, dm', k') \<Rightarrow>
               if dom_get_title dm' = None then (Inl NoTitle, dm', k')
               else (Inr (), dm', k')))"

section \<open>The loader and the document session\<close>

text \<open>
  Memory mappings. The state of the address space is the list of the regions
  \<^verbatim>\<open>mmap\<close> has created and the list of the \<^verbatim>\<open>munmap\<close> calls, both in order; a
  region is its address and its bytes. Whether a call of the operating system or
  of the inflate library succeeds is not decided by the program: the outcomes are
  the fields of \<open>env\<close>. \<open>gunzip\<close> is what a gzip file inflates to, \<open>zinflate\<close> what
  a zlib stream inflates to; the two formats differ in their headers.
\<close>

record vm =
  vm_mapped :: "nat list"
  vm_unmapped :: "nat list"

record region =
  r_addr :: nat
  r_bytes :: "byte list"

datatype ui_event = RenderFailed | Key "32 word"

record env =
  file_open :: bool                               \<comment> \<open>\<^verbatim>\<open>open\<close> succeeds\<close>
  file_stat :: bool                               \<comment> \<open>\<^verbatim>\<open>fstat\<close> succeeds\<close>
  file_data :: "byte list"                        \<comment> \<open>the file; \<^verbatim>\<open>st_size\<close> is its length\<close>
  map_file_ok :: bool                             \<comment> \<open>the \<^verbatim>\<open>mmap\<close> of the file succeeds\<close>
  map_anon_ok :: bool                             \<comment> \<open>the anonymous \<^verbatim>\<open>mmap\<close> succeeds\<close>
  inflater_ok :: bool                             \<comment> \<open>\<^verbatim>\<open>libdeflate_alloc_decompressor\<close> or \<^verbatim>\<open>inflateInit\<close> succeeds\<close>
  gunzip :: "byte list \<Rightarrow> byte list option"      \<comment> \<open>what a gzip file inflates to, if it is one\<close>
  zinflate :: "byte list \<Rightarrow> byte list option"    \<comment> \<open>what a zlib stream with a valid header inflates to\<close>
  heap_ok :: heap                                 \<comment> \<open>the allocator\<close>
  plane_ok :: bool                                \<comment> \<open>\<^verbatim>\<open>ncplane_create\<close> in \<^verbatim>\<open>render_troff\<close> succeeds\<close>
  bar_ok :: bool                                  \<comment> \<open>\<^verbatim>\<open>create_bar\<close> succeeds\<close>
  ui_events :: "ui_event list"                    \<comment> \<open>per pass of the input loop: the render fails, or a key\<close>

text \<open>The two implementations of \<^verbatim>\<open>map_gzipped_data\<close>, chosen by \<^verbatim>\<open>USE_DEFLATE\<close>.\<close>

datatype inflater = Libdeflate | Zlib

datatype load_error = OpenFailed | StatFailed | TooSmall | MapFailed | DecompressFailed

definition mmap :: "bool \<Rightarrow> byte list \<Rightarrow> vm \<Rightarrow> region option \<times> vm" where
  "mmap ok content st =
     (if ok
      then (Some \<lparr>r_addr = length (vm_mapped st), r_bytes = content\<rparr>,
            st\<lparr>vm_mapped := vm_mapped st @ [length (vm_mapped st)]\<rparr>)
      else (None, st))"

definition munmap :: "region \<Rightarrow> vm \<Rightarrow> vm" where
  "munmap r st = st\<lparr>vm_unmapped := vm_unmapped st @ [r_addr r]\<rparr>"

text \<open>A file mapping shows the file, and zeros up to the end of its last page.\<close>

definition pgsize :: nat where
  "pgsize = 4096"

definition page_pad :: "byte list \<Rightarrow> byte list" where
  "page_pad bs = bs @ replicate ((pgsize - length bs mod pgsize) mod pgsize) 0"

text \<open>\<^verbatim>\<open>memcpy(&ulen, buf + *len - 4, 4)\<close> into a \<^verbatim>\<open>uint32_t\<close>, little-endian.\<close>

definition le32 :: "byte list \<Rightarrow> nat \<Rightarrow> nat" where
  "le32 mem i = unat (mem ! i) + 2 ^ 8 * unat (mem ! (i + 1))
              + 2 ^ 16 * unat (mem ! (i + 2)) + 2 ^ 24 * unat (mem ! (i + 3))"

text \<open>
  The library call of either variant succeeds when the input inflates and the
  output fits the \<open>ulen\<close> bytes offered, and then the output is in \<^verbatim>\<open>ubuf\<close>.
\<close>

definition inflate_into :: "byte list option \<Rightarrow> region \<Rightarrow> nat \<Rightarrow> region option" where
  "inflate_into res ubuf ulen =
     (case res of
        None \<Rightarrow> None
      | Some out \<Rightarrow>
          if length out \<le> ulen
          then Some (ubuf\<lparr>r_bytes := out @ drop (length out) (r_bytes ubuf)\<rparr>)
          else None)"

text \<open>\<^verbatim>\<open>libdeflate_gzip_decompress\<close> reads the input as a gzip file.\<close>

definition libdeflate_gzip_decompress :: "env \<Rightarrow> byte list \<Rightarrow> region \<Rightarrow> nat \<Rightarrow> region option" where
  "libdeflate_gzip_decompress e input ubuf ulen = inflate_into (gunzip e input) ubuf ulen"

text \<open>
  \<^verbatim>\<open>inflate(&z, Z_FINISH)\<close> on a stream set up by \<^verbatim>\<open>inflateInit\<close> reads the input as a
  zlib stream. It begins with the two header bytes CMF and FLG, and answers
  \<^verbatim>\<open>Z_DATA_ERROR\<close> unless \<open>256 * CMF + FLG\<close> is a multiple of 31 and the low four bits
  of CMF name the method 8 (RFC 1950, section 2.2). A gzip header is accepted only
  after \<^verbatim>\<open>inflateInit2\<close> with 16 added to the window bits, which the program does
  not call.
\<close>

definition zlib_header_ok :: "byte list \<Rightarrow> bool" where
  "zlib_header_ok input \<longleftrightarrow>
     2 \<le> length input \<and>
     (256 * unat (input ! 0) + unat (input ! 1)) mod 31 = 0 \<and>
     unat (input ! 0) mod 16 = 8"

definition inflate_finish :: "env \<Rightarrow> byte list \<Rightarrow> region \<Rightarrow> nat \<Rightarrow> region option" where
  "inflate_finish e input ubuf ulen =
     (if zlib_header_ok input then inflate_into (zinflate e input) ubuf ulen else None)"

text \<open>
  \<^verbatim>\<open>map_gzipped_data\<close>, the libdeflate variant: the result pointer, \<^verbatim>\<open>*len\<close> after the
  call, and the address space.
\<close>

definition map_gzipped_data_deflate ::
  "env \<Rightarrow> region \<Rightarrow> nat \<Rightarrow> region \<Rightarrow> nat \<Rightarrow> vm \<Rightarrow> (region option \<times> nat) \<times> vm" where
  "map_gzipped_data_deflate e buf len ubuf ulen st =
     (if \<not> inflater_ok e then ((None, len), munmap buf st)
      else
        (let r = libdeflate_gzip_decompress e (take len (r_bytes buf)) ubuf ulen;
             st1 = munmap buf st
         in case r of
              None \<Rightarrow> ((None, len), st1)
            | Some filled \<Rightarrow> ((Some filled, ulen), st1)))"

text \<open>
  \<^verbatim>\<open>map_gzipped_data\<close>, the zlib variant. When \<^verbatim>\<open>inflate\<close> does not answer
  \<^verbatim>\<open>Z_STREAM_END\<close> it returns NULL; after \<^verbatim>\<open>Z_STREAM_END\<close> it calls
  \<^verbatim>\<open>munmap(buf, *len)\<close> a second time and returns NULL as well.
\<close>

definition map_gzipped_data_zlib ::
  "env \<Rightarrow> region \<Rightarrow> nat \<Rightarrow> region \<Rightarrow> nat \<Rightarrow> vm \<Rightarrow> (region option \<times> nat) \<times> vm" where
  "map_gzipped_data_zlib e buf len ubuf ulen st =
     (if \<not> inflater_ok e then ((None, len), munmap buf st)
      else
        (let r = inflate_finish e (take len (r_bytes buf)) ubuf ulen;
             st1 = munmap buf st
         in case r of
              None \<Rightarrow> ((None, len), st1)
            | Some filled \<Rightarrow> ((None, len), munmap buf st1)))"

definition map_gzipped_data ::
  "inflater \<Rightarrow> env \<Rightarrow> region \<Rightarrow> nat \<Rightarrow> region \<Rightarrow> nat \<Rightarrow> vm \<Rightarrow> (region option \<times> nat) \<times> vm" where
  "map_gzipped_data v = (case v of Libdeflate \<Rightarrow> map_gzipped_data_deflate | Zlib \<Rightarrow> map_gzipped_data_zlib)"

text \<open>
  \<^verbatim>\<open>map_troff_data\<close>. Each \<^verbatim>\<open>return NULL\<close> of the source is one \<open>load_error\<close>; a
  success is the buffer and \<^verbatim>\<open>*len\<close>.
\<close>

definition map_troff_data :: "inflater \<Rightarrow> env \<Rightarrow> vm \<Rightarrow> (load_error + region \<times> nat) \<times> vm" where
  "map_troff_data v e st =
     (if \<not> file_stat e then (Inl StatFailed, st)
      else if length (file_data e) < 18 then (Inl TooSmall, st)
      else
        (let len = length (file_data e) in
         case mmap (map_file_ok e) (page_pad (file_data e)) st of
           (None, st1) \<Rightarrow> (Inl MapFailed, st1)
         | (Some buf, st1) \<Rightarrow>
             if r_bytes buf ! 0 = 0x1f \<and> r_bytes buf ! 1 = 0x8b \<and> r_bytes buf ! 2 = 0x08
             then
               (let ulen = le32 (r_bytes buf) (len - 4);
                    msize = (ulen + pgsize - 1) div pgsize * pgsize
                in case mmap (map_anon_ok e \<and> msize \<noteq> 0) (replicate msize 0) st1 of
                     (None, st2) \<Rightarrow> (Inl MapFailed, munmap buf st2)
                   | (Some ubuf, st2) \<Rightarrow>
                       (case map_gzipped_data v e buf len ubuf ulen st2 of
                          ((None, len'), st3) \<Rightarrow> (Inl DecompressFailed, munmap ubuf st3)
                        | ((Some filled, len'), st3) \<Rightarrow> (Inr (filled, len'), st3)))
             else (Inr (buf, len), st1)))"

definition get_troff_data :: "inflater \<Rightarrow> env \<Rightarrow> vm \<Rightarrow> (load_error + region \<times> nat) \<times> vm" where
  "get_troff_data v e st =
     (if \<not> file_open e then (Inl OpenFailed, st) else map_troff_data v e st)"

text \<open>
  \<^verbatim>\<open>render_troff\<close>: the parse, then the plane; \<^verbatim>\<open>draw_content\<close> always returns 0.
  The result tells whether a plane was returned.
\<close>

definition render_troff ::
  "env \<Rightarrow> byte list \<Rightarrow> nat \<Rightarrow> pagedom \<Rightarrow> nat \<Rightarrow> bool \<times> pagedom \<times> nat" where
  "render_troff e mem mlen dm k =
     (case troff_parse (heap_ok e) mem mlen dm k of
        (Inl err, dm', k') \<Rightarrow> (False, dm', k')
      | (Inr u, dm', k') \<Rightarrow> (plane_ok e, dm', k'))"

text \<open>
  The input loop of \<^verbatim>\<open>manloop\<close>, one event per pass: it returns the value of
  \<^verbatim>\<open>ret\<close>. When the events are used up, \<^verbatim>\<open>notcurses_get\<close> returns \<^verbatim>\<open>(uint32_t)-1\<close>.
\<close>

fun input_loop :: "ui_event list \<Rightarrow> int" where
  "input_loop [] = - 1"
| "input_loop (RenderFailed # es) = - 1"
| "input_loop (Key key # es) =
     (if key = 0x71 then 0 else if key = - 1 then - 1 else input_loop es)"

text \<open>
  \<^verbatim>\<open>manloop\<close>: the return value and the address space when it returns. All paths
  meet at the label \<^verbatim>\<open>done\<close>, where the buffer is unmapped if it is not NULL.
\<close>

definition manloop :: "inflater \<Rightarrow> env \<Rightarrow> vm \<Rightarrow> int \<times> vm" where
  "manloop v e st =
     (case get_troff_data v e st of
        (Inl err, st1) \<Rightarrow> (- 1, st1)
      | (Inr (buf, len), st1) \<Rightarrow>
          (let ret =
             (case trofftrie (heap_ok e) trofftypes 0 of
                Inl err \<Rightarrow> - 1
              | Inr (trie, k) \<Rightarrow>
                  (case render_troff e (r_bytes buf) len (empty_dom\<lparr>dom_trie := Some trie\<rparr>) k of
                     (False, dm, k') \<Rightarrow> - 1
                   | (True, dm, k') \<Rightarrow>
                       if \<not> bar_ok e then - 1 else input_loop (ui_events e)))
           in (ret, munmap buf st1)))"

text \<open>The mappings still held, and whether every mapping was released exactly once.\<close>

definition held :: "vm \<Rightarrow> nat list" where
  "held st = filter (\<lambda>a. a \<notin> set (vm_unmapped st)) (vm_mapped st)"

definition released_once :: "vm \<Rightarrow> bool" where
  "released_once st \<longleftrightarrow>
     distinct (vm_unmapped st) \<and> set (vm_unmapped st) = set (vm_mapped st)"

definition vm0 :: vm where
  "vm0 = \<lparr>vm_mapped = [], vm_unmapped = []\<rparr>"

text \<open>The trie of the program: \<^verbatim>\<open>trofftrie()\<close> on the static table, no allocation failing.\<close>

definition static_trie :: troffnode where
  "static_trie =
     (case trofftrie (\<lambda>k. True) trofftypes 0 of Inr (t, k) \<Rightarrow> t | Inl e \<Rightarrow> zero_node)"

text \<open>
  A whole parse of the buffer \<open>mem\<close> with that trie into an empty document, as
  \<^verbatim>\<open>manloop\<close> starts it: the result, the root node's text, the title and the section.
\<close>

definition root_text :: "pagedom \<Rightarrow> byte list option" where
  "root_text dm = (case dom_root dm of None \<Rightarrow> None | Some n \<Rightarrow> node_text n)"

definition parse_buffer ::
  "byte list \<Rightarrow> (parse_error + unit) \<times> byte list option \<times> byte list option \<times> byte list option" where
  "parse_buffer mem =
     (case troff_parse (\<lambda>k. True) mem (length mem) (empty_dom\<lparr>dom_trie := Some static_trie\<rparr>) 0 of
        (r, dm, k) \<Rightarrow> (r, root_text dm, dom_title dm, dom_section dm))"

text \<open>The same for a region of which only the first \<open>mlen\<close> bytes are the file.\<close>

definition parse_region ::
  "byte list \<Rightarrow> nat \<Rightarrow> (parse_error + unit) \<times> byte list option \<times> byte list option \<times> byte list option" where
  "parse_region mem mlen =
     (case troff_parse (\<lambda>k. True) mem mlen (empty_dom\<lparr>dom_trie := Some static_trie\<rparr>) 0 of
        (r, dm, k) \<Rightarrow> (r, root_text dm, dom_title dm, dom_section dm))"

definition has_gzip_magic :: "byte list \<Rightarrow> bool" where
  "has_gzip_magic bs \<longleftrightarrow> bs ! 0 = 0x1f \<and> bs ! 1 = 0x8b \<and> bs ! 2 = 0x08"

text \<open>
  A session in which nothing outside the program fails: the file \<open>file\<close>, which as a
  gzip file inflates to \<open>page\<close>, and the key \<^verbatim>\<open>q\<close>. What a zlib stream would inflate
  to is \<open>page\<close> as well, whatever the stream.
\<close>

definition session_env :: "byte list \<Rightarrow> byte list \<Rightarrow> env" where
  "session_env file page =
     \<lparr>file_open = True, file_stat = True, file_data = file, map_file_ok = True,
      map_anon_ok = True, inflater_ok = True,
      gunzip = (\<lambda>input. if input = file then Some page else None),
      zinflate = (\<lambda>input. Some page),
      heap_ok = (\<lambda>k. True), plane_ok = True, bar_ok = True, ui_events = [Key 0x71]\<rparr>"

text \<open>
  A page of 21 bytes, and the 39 bytes that \<^verbatim>\<open>gzip\<close> makes of it: the ten bytes of
  the header, the deflate data, the CRC-32 and the length 21.
\<close>

definition small_page :: "byte list" where
  \<open>small_page = bytes ''.TH "ncman" "1" "v3"'' @ [0x0a]\<close>

definition gz_file :: "byte list" where
  "gz_file =
     [0x1f, 0x8b, 0x08, 0x00, 0x00, 0x00, 0x00, 0x00, 0x02, 0x03,
      0xd3, 0x0b, 0xf1, 0x50, 0x50, 0xca, 0x4b, 0xce, 0x4d, 0xcc, 0x53, 0x52, 0x50,
      0x32, 0x04, 0xe2, 0x32, 0x63, 0x25, 0x2e, 0x00,
      0x70, 0x66, 0x5d, 0xa1, 0x15, 0x00, 0x00, 0x00]"

section \<open>Notions used to state the properties\<close>

text \<open>
  These are not functions of the program. \<open>wf_node\<close> says that every node of a trie
  has its 0x80 child slots; \<open>trie_find\<close> follows a symbol from a node and gives the
  descriptor at its end; \<open>cstr\<close> is a symbol as a C string, cut at its first NUL;
  \<open>registered\<close> lists the symbols of a table that \<^verbatim>\<open>trofftrie\<close> inserts.

  \<open>line_at\<close> is the line that starts at an index: the bytes up to the next newline
  or NUL byte, the two bytes at which the scanner ends a line, or up to the end of
  the buffer. \<open>line_starts\<close> lists the indices at which the lines of a buffer start
  from an index on, each one byte after the end of the line before it.
  \<open>is_title_line\<close> says that a line is \<^verbatim>\<open>.TH\<close> followed by nothing or by whitespace,
  and \<open>title_starts\<close> lists the starts of the title lines of a buffer.
  \<open>macro_symbol\<close> is the symbol of a line that begins with a dot: the bytes after
  the dot up to the first whitespace or NUL. \<open>line_feol\<close> is the index that the
  parser takes for the end of the content of a line: the index of the byte that
  ends the line, less one when that byte is a newline.
\<close>

fun wf_node :: "troffnode \<Rightarrow> bool" where
  "wf_node (Troffnode ns t) \<longleftrightarrow>
     length ns = 0x80 \<and> (\<forall>c \<in> set ns. case c of None \<Rightarrow> True | Some n \<Rightarrow> wf_node n)"

fun trie_find :: "troffnode \<Rightarrow> byte list \<Rightarrow> trofftype option" where
  "trie_find n [] = node_ttype n"
| "trie_find n (b # bs) =
     (if unat b < 0x80
      then (case node_next n ! unat b of None \<Rightarrow> None | Some c \<Rightarrow> trie_find c bs)
      else None)"

definition cstr :: "byte list \<Rightarrow> byte list" where
  "cstr s = takeWhile (\<lambda>b. b \<noteq> 0) s"

definition registered :: "trofftype list \<Rightarrow> byte list list" where
  "registered ts = map (\<lambda>t. cstr (symbol t)) (filter (\<lambda>t. strlen (symbol t) \<noteq> 0) ts)"


definition line_at :: "byte list \<Rightarrow> nat \<Rightarrow> byte list" where
  "line_at mem off = takeWhile (\<lambda>b. b \<noteq> 0x0a \<and> b \<noteq> 0) (drop off mem)"

function line_starts :: "byte list \<Rightarrow> nat \<Rightarrow> nat list" where
  "line_starts mem off =
     (if off < length mem then off # line_starts mem (off + length (line_at mem off) + 1) else [])"
  by pat_completeness auto
termination
  by (relation "measure (\<lambda>(mem, off). length mem - off)") auto




text \<open>
  The mappings that a session creates, given the address \<open>n\<close> of the next mapping:
  none when the file is not opened, not measured, too small or not mapped; the
  file mapping; and after it the anonymous region, when the file has the gzip
  signature, the anonymous \<^verbatim>\<open>mmap\<close> is granted and the length in the last four bytes
  is not zero. \<open>loader_mappings\<close> is the same for \<^verbatim>\<open>map_troff_data\<close>, after the open.
\<close>

definition loader_mappings :: "env \<Rightarrow> nat \<Rightarrow> nat list" where
  "loader_mappings e n =
     (if file_stat e \<and> 18 \<le> length (file_data e) \<and> map_file_ok e
      then (if has_gzip_magic (file_data e) \<and> map_anon_ok e
               \<and> le32 (file_data e) (length (file_data e) - 4) \<noteq> 0
            then [n, n + 1] else [n])
      else [])"

definition session_mappings :: "env \<Rightarrow> nat \<Rightarrow> nat list" where
  "session_mappings e n = (if file_open e then loader_mappings e n else [])"

section \<open>Evaluating the parser and the loader\<close>

declare get_type_loop.simps [simp del] find_eol.simps [simp del] troff_parse_loop.simps [simp del]
  line_starts.simps [simp del]

lemmas parser_defs = get_type_loop.simps find_eol.simps troff_parse_loop.simps parse_buffer_def parse_region_def root_text_def troff_parse_def parse_line_def
  title_line_def find_feol_def lex_title_def strndup_str_def strndup_def deref_def size_of_diff_def
  size_sub_def size_dec_def rd_def get_type_def static_trie_def trofftrie_def trofftypes_def mk_def
  bytes_def isspace_def zero_node_def strlen_def empty_dom_def dom_get_title_def Let_def

lemmas loader_defs = manloop_def render_troff_def get_troff_data_def map_troff_data_def
  map_gzipped_data_def map_gzipped_data_deflate_def map_gzipped_data_zlib_def inflate_into_def
  libdeflate_gzip_decompress_def inflate_finish_def zlib_header_ok_def
  mmap_def munmap_def le32_def page_pad_def pgsize_def vm0_def session_env_def gz_file_def
  small_page_def released_once_def held_def


lemma unquoted_eob:
  \<open>parse_buffer (bytes ''.TH unquoted-title 3'') =
     (Inl SectionExtractionFailed, Some (bytes ''unquoted-title 3''), Some (bytes ''unquoted-title''), None)\<close>
  by (simp add: parser_defs)

lemma unquoted_nl:
  \<open>parse_buffer (bytes ''.TH unquoted-title 3'' @ [0x0a]) =
     (Inl SectionExtractionFailed, Some (bytes ''unquoted-title ''), Some (bytes ''unquoted-title''), None)\<close>
  by (simp add: parser_defs)

lemma spaced_eob:
  \<open>parse_buffer (bytes ''.TH "Spaced Title" "4"'') =
     (Inr (), Some (bytes ''"Spaced Title" "4"''), Some (bytes ''Spaced Title''), Some (bytes ''4''))\<close>
  by (simp add: parser_defs)

lemma spaced_nl:
  \<open>parse_buffer (bytes ''.TH "Spaced Title" "4"'' @ [0x0a]) =
     (Inl SectionExtractionFailed, Some (bytes ''"Spaced Title" "4''), Some (bytes ''Spaced Title''), None)\<close>
  by (simp add: parser_defs)

lemma unterminated_eob:
  \<open>parse_buffer (bytes ''.TH "Unterminated'') =
     (Inl TitleExtractionFailed, Some (bytes ''"Unterminated''), None, None)\<close>
  by (simp add: parser_defs)

lemma unterminated_nl:
  \<open>parse_buffer (bytes ''.TH "Unterminated'' @ [0x0a]) =
     (Inl TitleExtractionFailed, Some (bytes ''"Unterminate''), None, None)\<close>
  by (simp add: parser_defs)

text \<open>
  C1 (title lexing on the quoting examples). The claim expects title and section
  from \<^verbatim>\<open>.TH unquoted-title 3\<close> and from \<^verbatim>\<open>.TH "Spaced Title" "4"\<close>, and the
  title-extraction error from \<^verbatim>\<open>.TH "Unterminated\<close>, whether the line ends at a
  newline or at the end of the buffer. The parser does so for the unterminated
  quote, and for the spaced title at the end of the buffer. It returns -1 with
  "couldn't extract section" for the unquoted line in both forms and for the spaced
  title before a newline: a section token that reaches the end of the text is
  rejected, and before a newline the text has lost its last byte.
\<close>

theorem title_examples_evaluated:
  \<open>fst (parse_buffer (bytes ''.TH unquoted-title 3'')) = Inl SectionExtractionFailed \<and>
   fst (parse_buffer (bytes ''.TH unquoted-title 3'' @ [0x0a])) = Inl SectionExtractionFailed \<and>
   parse_buffer (bytes ''.TH "Spaced Title" "4"'') =
     (Inr (), Some (bytes ''"Spaced Title" "4"''), Some (bytes ''Spaced Title''), Some (bytes ''4'')) \<and>
   fst (parse_buffer (bytes ''.TH "Spaced Title" "4"'' @ [0x0a])) = Inl SectionExtractionFailed \<and>
   fst (parse_buffer (bytes ''.TH "Unterminated'')) = Inl TitleExtractionFailed \<and>
   fst (parse_buffer (bytes ''.TH "Unterminated'' @ [0x0a])) = Inl TitleExtractionFailed\<close>
  by (simp only: unquoted_eob unquoted_nl spaced_eob spaced_nl unterminated_eob unterminated_nl
        fst_conv simp_thms)

text \<open>
  C2 (the root text is the whole content of the title line). On the line
  \<^verbatim>\<open>.TH "ncman" "1" "v3"\<close> followed by a newline, the text stored in the root node
  is \<^verbatim>\<open>"ncman" "1" "v3\<close>: the closing quote, the last byte before the newline, is
  left out. The parse still succeeds.
\<close>

theorem root_text_drops_last_byte:
  \<open>parse_buffer (bytes ''.TH "ncman" "1" "v3"'' @ [0x0a]) =
     (Inr (), Some (bytes ''"ncman" "1" "v3''), Some (bytes ''ncman''), Some (bytes ''1''))\<close>
  by (simp add: parser_defs)

text \<open>
  C8 (a title line with no content is the empty-title error). A bare \<^verbatim>\<open>.TH\<close>
  before its newline is not rejected: \<^verbatim>\<open>feol\<close> is then below \<^verbatim>\<open>ws\<close>, neither test
  of the guard holds, and \<^verbatim>\<open>strndup\<close> is called with the length -2 as a
  \<^verbatim>\<open>size_t\<close>. It copies what follows the newline up to the first NUL. Here the file
  is the 20 bytes of two lines, followed in the mapping by the zero that pads the
  page: the parse succeeds, with the title taken from the second line.
\<close>

theorem bare_title_line_not_rejected:
  \<open>parse_region (bytes ''.TH'' @ [0x0a] @ bytes ''"notcurses" "3"'' @ [0x0a, 0]) 20 =
     (Inr (), Some (bytes ''"notcurses" "3"'' @ [0x0a]), Some (bytes ''notcurses''), Some (bytes ''3''))\<close>
  by (simp add: parser_defs)

text \<open>
  C10 (a NUL byte ends a line exactly as a newline does). The same title line is
  parsed when a NUL ends it and fails with the section error when a newline ends
  it: before a newline, and only there, \<^verbatim>\<open>feol\<close> is stepped back, and the text
  handed to \<^verbatim>\<open>lex_title\<close> loses the closing quote. A bare \<^verbatim>\<open>.TH\<close> is the empty-title
  error when a NUL ends it, and takes the next line for its text when a newline
  ends it.
\<close>

theorem nul_and_newline_end_a_title_line_differently:
  \<open>parse_buffer (bytes ''.TH "Spaced Title" "4"'' @ [0]) =
     (Inr (), Some (bytes ''"Spaced Title" "4"''), Some (bytes ''Spaced Title''), Some (bytes ''4'')) \<and>
   parse_buffer (bytes ''.TH "Spaced Title" "4"'' @ [0x0a]) =
     (Inl SectionExtractionFailed, Some (bytes ''"Spaced Title" "4''), Some (bytes ''Spaced Title''), None) \<and>
   parse_region (bytes ''.TH'' @ [0] @ bytes ''"notcurses" "3"'' @ [0x0a, 0]) 20 =
     (Inl EmptyTitle, None, None, None) \<and>
   parse_region (bytes ''.TH'' @ [0x0a] @ bytes ''"notcurses" "3"'' @ [0x0a, 0]) 20 =
     (Inr (), Some (bytes ''"notcurses" "3"'' @ [0x0a]), Some (bytes ''notcurses''), Some (bytes ''3''))\<close>
  by (simp add: parser_defs)

text \<open>
  C5 (classification never indexes a child slot outside 0 to 127). On the two
  bytes \<^verbatim>\<open>.\<close> and 0x80, with the bound 2, \<^verbatim>\<open>get_type\<close> passes the guard
  \<^verbatim>\<open>**ws > sizeof(trie->next) / sizeof(*trie->next)\<close>, which is \<^verbatim>\<open>0x80 > 0x80\<close>, and
  reads \<^verbatim>\<open>trie->next[0x80]\<close>, one past the last slot.
\<close>

theorem get_type_indexes_slot_0x80:
  "get_type static_trie [0x2e, 0x80] 0 2 = Inl TrieIndexOutOfRange"
  by (simp add: parser_defs)

text \<open>
  C3 (a gzip file whose payload inflates is returned as the new region, with the
  inflated length). \<open>gz_file\<close> is a gzip file of the 21-byte page. With the zlib
  variant \<^verbatim>\<open>map_troff_data\<close> fails on it: \<^verbatim>\<open>inflate\<close> after \<^verbatim>\<open>inflateInit\<close> refuses the
  gzip header, \<^verbatim>\<open>map_gzipped_data\<close> returns NULL by its \<^verbatim>\<open>r != Z_STREAM_END\<close> branch,
  and both regions are released once. The libdeflate variant returns the new
  region and the length 21 on the same file.
\<close>

theorem zlib_build_rejects_gzip_file:
  "gunzip (session_env gz_file small_page) gz_file = Some small_page \<and>
   map_troff_data Zlib (session_env gz_file small_page) vm0 =
     (Inl DecompressFailed, \<lparr>vm_mapped = [0, 1], vm_unmapped = [0, 1]\<rparr>) \<and>
   (case map_troff_data Libdeflate (session_env gz_file small_page) vm0 of
      (Inr (r, len), st) \<Rightarrow>
         r_addr r = 1 \<and> len = 21 \<and> take len (r_bytes r) = small_page
         \<and> st = \<lparr>vm_mapped = [0, 1], vm_unmapped = [0]\<rparr>
    | (Inl e, st) \<Rightarrow> False)"
  by (simp add: loader_defs nth_append bytes_def)

lemma nth_page_pad: "i < length bs \<Longrightarrow> page_pad bs ! i = bs ! i"
  by (simp add: page_pad_def nth_append)

text \<open>
  C9 (the size limit of the loader). When \<^verbatim>\<open>fstat\<close> has succeeded: a file of fewer
  than 18 bytes is rejected as too small, with nothing mapped; a file of exactly 18
  bytes is never rejected as too small, and when its mapping succeeds and it does not
  start with the gzip signature it is returned as it is, with the length 18.
\<close>

theorem loader_size_limit:
  assumes "file_stat e"
  shows "(length (file_data e) < 18 \<longrightarrow> map_troff_data v e st = (Inl TooSmall, st)) \<and>
         (length (file_data e) = 18 \<longrightarrow>
            fst (map_troff_data v e st) \<noteq> Inl TooSmall \<and>
            (map_file_ok e \<and> \<not> has_gzip_magic (file_data e) \<longrightarrow>
               map_troff_data v e st =
                 (Inr (\<lparr>r_addr = length (vm_mapped st), r_bytes = page_pad (file_data e)\<rparr>, 18),
                  st\<lparr>vm_mapped := vm_mapped st @ [length (vm_mapped st)]\<rparr>)))"
  using assms
  by (auto simp: map_troff_data_def mmap_def Let_def has_gzip_magic_def nth_page_pad
           split: prod.splits option.splits)

theorem loader_size_limit_witness:
  "map_troff_data Zlib (session_env (replicate 17 0x20) []) vm0 = (Inl TooSmall, vm0) \<and>
   map_troff_data Zlib (session_env (replicate 18 0x20) []) vm0 =
     (Inr (\<lparr>r_addr = 0, r_bytes = page_pad (replicate 18 0x20)\<rparr>, 18),
      \<lparr>vm_mapped = [0], vm_unmapped = []\<rparr>)"
  using loader_size_limit [of "session_env (replicate 17 0x20) []" Zlib vm0]
        loader_size_limit [of "session_env (replicate 18 0x20) []" Zlib vm0]
  by (simp add: session_env_def has_gzip_magic_def vm0_def)

section \<open>The line scanner and NUL bytes\<close>

lemma get_type_loop_0: "get_type_loop trie mem ws 0 = Inr (node_ttype trie, ws)"
  by (subst get_type_loop.simps) simp

lemma get_type_loop_oob:
  "len \<noteq> 0 \<Longrightarrow> \<not> ws < length mem \<Longrightarrow> get_type_loop trie mem ws len = Inl ReadOutOfBounds"
  by (subst get_type_loop.simps) (simp add: rd_def)

lemma get_type_loop_step:
  "len \<noteq> 0 \<Longrightarrow> ws < length mem \<Longrightarrow>
   get_type_loop trie mem ws len =
     (if isspace (mem ! ws) \<or> mem ! ws = 0 then Inr (node_ttype trie, ws)
      else if unat (mem ! ws) > 0x80 then Inr (None, ws)
      else if unat (mem ! ws) \<ge> length (node_next trie) then Inl TrieIndexOutOfRange
      else (case node_next trie ! unat (mem ! ws) of
              None \<Rightarrow> Inr (None, ws)
            | Some trie' \<Rightarrow> get_type_loop trie' mem (ws + 1) (len - 1)))"
  by (subst get_type_loop.simps) (simp add: rd_def)

lemma get_type_loop_span:
  "get_type_loop trie mem ws len = Inr (node, ws') \<Longrightarrow>
     ws \<le> ws' \<and> ws' \<le> ws + len \<and>
     (\<forall>i. ws \<le> i \<and> i < ws' \<longrightarrow> i < length mem \<and> \<not> isspace (mem ! i) \<and> mem ! i \<noteq> 0)"
proof (induction len arbitrary: trie ws)
  case 0
  then show ?case by (auto simp: get_type_loop_0)
next
  case (Suc len)
  show ?case
  proof (cases "ws < length mem")
    case False
    with Suc.prems show ?thesis by (simp add: get_type_loop_oob)
  next
    case inb: True
    show ?thesis
    proof (cases "isspace (mem ! ws) \<or> mem ! ws = 0 \<or> unat (mem ! ws) > 0x80
                  \<or> unat (mem ! ws) \<ge> length (node_next trie)")
      case True
      with inb Suc.prems show ?thesis
        by (auto simp: get_type_loop_step split: if_splits)
    next
      case ok: False
      show ?thesis
      proof (cases "node_next trie ! unat (mem ! ws)")
        case None
        with inb ok Suc.prems show ?thesis by (auto simp: get_type_loop_step)
      next
        case (Some trie')
        with inb ok Suc.prems
        have rec: "get_type_loop trie' mem (ws + 1) len = Inr (node, ws')"
          by (simp add: get_type_loop_step)
        from Suc.IH[OF rec]
        have ih: "ws + 1 \<le> ws'" "ws' \<le> ws + 1 + len"
          "\<And>i. ws + 1 \<le> i \<Longrightarrow> i < ws' \<Longrightarrow> i < length mem \<and> \<not> isspace (mem ! i) \<and> mem ! i \<noteq> 0"
          by auto
        have "i < length mem \<and> \<not> isspace (mem ! i) \<and> mem ! i \<noteq> 0"
          if "ws \<le> i" "i < ws'" for i
        proof (cases "i = ws")
          case True
          with inb ok show ?thesis by simp
        next
          case False
          with that have "ws + 1 \<le> i" by simp
          from ih(3)[OF this that(2)] show ?thesis .
        qed
        with ih(1,2) show ?thesis by simp
      qed
    qed
  qed
qed

lemma get_type_span:
  assumes "get_type trie mem ws len = Inr (node, ws')" and "len \<noteq> 0"
  shows "ws \<le> ws' \<and> ws' \<le> ws + len \<and>
     (\<forall>i. ws \<le> i \<and> i < ws' \<longrightarrow> i < length mem \<and> \<not> isspace (mem ! i) \<and> mem ! i \<noteq> 0)"
proof (cases "ws < length mem \<and> mem ! ws = 0x2e")
  case False
  with assms show ?thesis by (auto simp: get_type_def rd_def split: if_splits)
next
  case True
  with assms have rec: "get_type_loop trie mem (ws + 1) (len - 1) = Inr (node, ws')"
    by (simp add: get_type_def rd_def size_dec_def)
  note sp = get_type_loop_span[OF rec]
  have "i < length mem \<and> \<not> isspace (mem ! i) \<and> mem ! i \<noteq> 0" if "ws \<le> i" "i < ws'" for i
  proof (cases "i = ws")
    case True
    with \<open>ws < length mem \<and> mem ! ws = 0x2e\<close> show ?thesis by (simp add: isspace_def)
  next
    case False
    with that sp show ?thesis by simp
  qed
  with sp assms(2) show ?thesis by simp
qed

lemma find_eol_first:
  assumes "z < length mem" "mem ! z = 0 \<or> mem ! z = 0x0a"
  shows "ws \<le> z \<Longrightarrow> z < ws + left \<Longrightarrow>
         \<forall>i. ws \<le> i \<and> i < z \<longrightarrow> mem ! i \<noteq> 0 \<and> mem ! i \<noteq> 0x0a \<Longrightarrow>
         find_eol mem ws left = Inr (z, left - (z - ws))"
proof (induction "z - ws" arbitrary: ws left)
  case 0
  then have "ws = z" by simp
  with assms 0 show ?case by (subst find_eol.simps) (auto simp: rd_def)
next
  case (Suc d)
  then have lt: "ws < z" by simp
  have nz: "mem ! ws \<noteq> 0 \<and> mem ! ws \<noteq> 0x0a" "ws < length mem"
    using Suc.prems(3)[rule_format, of ws] assms(1) lt by simp_all
  have "find_eol mem (ws + 1) (left - 1) = Inr (z, left - 1 - (z - (ws + 1)))"
    using Suc by (intro Suc.hyps(1)) auto
  moreover have "find_eol mem ws left = find_eol mem (ws + 1) (left - 1)"
    using nz Suc.prems lt by (subst find_eol.simps) (auto simp: rd_def)
  ultimately show ?case using lt by simp
qed


lemma lex_title_root_snd: "dom_root (fst (snd (lex_title ok dm k))) = dom_root dm"
  by (simp add: lex_title_def Let_def split: option.split prod.split)

lemma lex_title_root: "lex_title ok dm k = (r, dm', k') \<Longrightarrow> dom_root dm' = dom_root dm"
  using lex_title_root_snd[of ok dm k] by simp

lemma takeWhile_to_nul:
  assumes "a \<le> z" "z < length mem" "mem ! z = 0"
    and "\<forall>i. a \<le> i \<and> i < z \<longrightarrow> mem ! i \<noteq> 0"
  shows "takeWhile (\<lambda>b. b \<noteq> 0) (drop a mem) = take (z - a) (drop a mem)"
proof (rule takeWhile_eq_take_P_nth)
  fix i assume "i < z - a" "i < length (drop a mem)"
  then show "drop a mem ! i \<noteq> 0" using assms by simp
next
  assume "z - a < length (drop a mem)"
  show "\<not> drop a mem ! (z - a) \<noteq> 0" using assms by simp
qed

lemma strndup_to_nul:
  assumes "a \<le> z" "z < length mem" "mem ! z = 0"
    and "\<forall>i. a \<le> i \<and> i < z \<longrightarrow> mem ! i \<noteq> 0"
  shows "\<exists>m. a + m \<le> z \<and> strndup mem a n = Inr (take m (drop a mem))"
proof -
  let ?s = "takeWhile (\<lambda>b. b \<noteq> 0) (drop a mem)"
  have s: "?s = take (z - a) (drop a mem)" by (rule takeWhile_to_nul[OF assms])
  have len: "length ?s = z - a" using assms by (simp add: s)
  show ?thesis
  proof (cases "n \<le> z - a")
    case True
    then have "strndup mem a n = Inr (take n (drop a mem))"
      using len by (simp add: strndup_def Let_def s min_def)
    with True assms(1) show ?thesis by (intro exI[of _ n]) simp
  next
    case False
    then have "strndup mem a n = Inr (take (z - a) (drop a mem))"
      using len assms by (simp add: strndup_def Let_def s)
    with assms(1) show ?thesis by (intro exI[of _ "z - a"]) simp
  qed
qed

lemma title_line_root_text:
  assumes "ws \<le> z" "z < length mem" "mem ! z = 0"
    and "\<forall>i. ws < i \<and> i < z \<longrightarrow> mem ! i \<noteq> 0"
    and tl: "title_line ok mem ws (int z) dm k = (r, dm', k')"
    and tx: "root_text dm' = Some txt"
  shows "root_text dm = Some txt \<or> (\<exists>n. ws + 1 + n \<le> z \<and> txt = take n (drop (ws + 1) mem))"
proof (cases "dom_get_title dm \<noteq> None \<or> ws = z \<or> ws + 1 = z")
  case True
  with tl have "dm' = dm" by (auto simp: title_line_def split: if_splits)
  with tx show ?thesis by simp
next
  case False
  with assms(1) have a: "ws + 1 \<le> z" by simp
  have nn: "\<forall>i. ws + 1 \<le> i \<and> i < z \<longrightarrow> mem ! i \<noteq> 0" using assms(4) by simp
  obtain m where m: "ws + 1 + m \<le> z"
      "strndup mem (ws + 1) (size_of_diff (int z - (int ws + 1))) = Inr (take m (drop (ws + 1) mem))"
    using strndup_to_nul[OF a assms(2,3) nn] by blast
  show ?thesis
  proof (cases "ok k \<and> ok (Suc k)")
    case False
    with tl \<open>\<not> (dom_get_title dm \<noteq> None \<or> ws = z \<or> ws + 1 = z)\<close> m(2)
    have "root_text dm' = None"
      by (auto simp: title_line_def root_text_def split: if_splits)
    with tx show ?thesis by simp
  next
    case True
    with tl \<open>\<not> (dom_get_title dm \<noteq> None \<or> ws = z \<or> ws + 1 = z)\<close> m(2)
    have "lex_title ok (dm\<lparr>dom_root := Some \<lparr>node_text = Some (take m (drop (ws + 1) mem))\<rparr>\<rparr>) (Suc (Suc k))
            = (r, dm', k')"
      by (auto simp: title_line_def split: if_splits)
    from lex_title_root[OF this] have "root_text dm' = Some (take m (drop (ws + 1) mem))"
      by (simp add: root_text_def)
    with tx m(1) show ?thesis by auto
  qed
qed


text \<open>
  What does hold of a line that a NUL byte ends. Let \<open>z\<close> be the first index at or
  after the start \<open>off\<close> of a line that holds a NUL or a newline, inside the first
  \<open>mlen\<close> bytes, and let it hold a NUL. Then macro classification stops at or before
  \<open>z\<close> and the end-of-line scan stops at \<open>z\<close>; when the line does not end the parse,
  the next line starts at \<open>z + 1\<close>; and a root text stored by this line is a run of
  bytes of the buffer that lies after \<open>off\<close> and before \<open>z\<close>.
\<close>

theorem nul_ends_line:
  assumes "mlen \<le> length mem" and "off \<le> z" and "z < mlen" and "mem ! z = 0"
    and "\<forall>i. off \<le> i \<and> i < z \<longrightarrow> mem ! i \<noteq> 0 \<and> mem ! i \<noteq> 0x0a"
  shows "(\<forall>node ws. get_type trie mem off (mlen - off) = Inr (node, ws) \<longrightarrow>
            ws \<le> z \<and>
            find_eol mem ws (size_sub (mlen - off) (ws - off)) = Inr (z, mlen - z)) \<and>
         (\<forall>eol dm' k'. parse_line ok trie mem mlen off off dm k = (Inr eol, dm', k') \<longrightarrow>
            eol = z \<and>
            troff_parse_loop ok trie mem mlen off off dm k =
              troff_parse_loop ok trie mem mlen (z + 1) (z + 1) dm' k') \<and>
         (\<forall>r dm' k' t. parse_line ok trie mem mlen off off dm k = (r, dm', k') \<and>
            root_text dm' = Some t \<longrightarrow>
            root_text dm = Some t \<or>
            (\<exists>a n. off < a \<and> a + n \<le> z \<and> t = take n (drop a mem)))"
proof -
  have zl: "z < length mem" using assms by simp
  have seg: "ws \<le> z \<and> find_eol mem ws (size_sub (mlen - off) (ws - off)) = Inr (z, mlen - z)"
    if g: "get_type trie mem off (mlen - off) = Inr (node, ws)" for node ws
  proof -
    have ne: "mlen - off \<noteq> 0" using assms by simp
    note sp = get_type_span[OF g ne]
    have le: "ws \<le> z"
    proof (rule ccontr)
      assume "\<not> ws \<le> z"
      with sp assms(2) have "mem ! z \<noteq> 0" by simp
      with assms(4) show False by simp
    qed
    have sz: "size_sub (mlen - off) (ws - off) = mlen - ws"
      using sp le assms by (simp add: size_sub_def)
    have "find_eol mem ws (mlen - ws) = Inr (z, mlen - ws - (z - ws))"
    proof (rule find_eol_first[OF zl _ le])
      show "mem ! z = 0 \<or> mem ! z = 0x0a" using assms(4) by simp
      show "z < ws + (mlen - ws)" using assms le by simp
      show "\<forall>i. ws \<le> i \<and> i < z \<longrightarrow> mem ! i \<noteq> 0 \<and> mem ! i \<noteq> 0x0a"
        using assms(5) sp by simp
    qed
    with sz le show ?thesis by simp
  qed
  have feol: "find_feol mem z (mlen - z) = Inr (int z)"
    using assms zl by (simp add: find_feol_def rd_def)
  have eol: "eol = z" if "parse_line ok trie mem mlen off off dm k = (Inr eol, dm', k')" for eol dm' k'
    using that seg feol
    by (auto simp: parse_line_def split: sum.splits prod.splits option.splits if_splits)
  have step: "troff_parse_loop ok trie mem mlen off off dm k =
              troff_parse_loop ok trie mem mlen (z + 1) (z + 1) dm' k'"
    if "parse_line ok trie mem mlen off off dm k = (Inr eol, dm', k')" for eol dm' k'
  proof -
    have "off < mlen" using assms by simp
    then show ?thesis
      using that eol[OF that] assms(2)
      by (subst troff_parse_loop.simps) (simp add: Let_def)
  qed
  have rt: "root_text dm = Some t \<or> (\<exists>a n. off < a \<and> a + n \<le> z \<and> t = take n (drop a mem))"
    if pl: "parse_line ok trie mem mlen off off dm k = (r, dm', k')" and t: "root_text dm' = Some t"
    for r dm' k' t
  proof (cases "get_type trie mem off (mlen - off)")
    case (Inl e)
    with pl have "dm' = dm" by (simp add: parse_line_def)
    with t show ?thesis by simp
  next
    case (Inr p)
    obtain node ws where p: "p = (node, ws)" by (cases p)
    note g = Inr[unfolded p]
    note s = seg[OF g]
    have ne: "mlen - off \<noteq> 0" using assms by simp
    note sp = get_type_span[OF g ne]
    show ?thesis
    proof (cases "\<exists>d. node = Some d \<and> ltype d = LINE_TH")
      case False
      with pl g s feol have "dm' = dm"
        by (auto simp: parse_line_def split: option.splits)
      with t show ?thesis by simp
    next
      case True
      then obtain d where d: "node = Some d" "ltype d = LINE_TH" by blast
      obtain r1 where tl: "title_line ok mem ws (int z) dm k = (r1, dm', k')"
        using pl g s feol d
        by (cases "title_line ok mem ws (int z) dm k")
           (auto simp: parse_line_def split: sum.splits)
      have nn: "\<forall>i. ws < i \<and> i < z \<longrightarrow> mem ! i \<noteq> 0" using assms(5) sp by simp
      from title_line_root_text[OF _ zl assms(4) nn tl t] s
      consider "root_text dm = Some t"
        | n where "ws + 1 + n \<le> z" "t = take n (drop (ws + 1) mem)" by blast
      then show ?thesis
      proof cases
        case 1
        then show ?thesis by simp
      next
        case 2
        with sp show ?thesis by (intro disjI2 exI[of _ "ws + 1"] exI[of _ n]) simp
      qed
    qed
  qed
  show ?thesis using seg eol step rt by blast
qed


lemma all_nth_by_take:
  "z \<le> length xs \<Longrightarrow> \<forall>x \<in> set (take z xs). P x \<Longrightarrow> \<forall>i. a \<le> i \<and> i < z \<longrightarrow> P (xs ! i)"
  by (metis in_set_conv_nth length_take min.absorb2 nth_take)

theorem nul_ends_line_witness:
  \<open>parse_line (\<lambda>k. True) static_trie (bytes ''.TH "A" "4"'' @ [0] @ bytes ''zz'') 14 0 0 empty_dom 0 =
     (Inr 11, empty_dom\<lparr>dom_root := Some \<lparr>node_text = Some (bytes ''"A" "4"'')\<rparr>,
                         dom_title := Some (bytes ''A''), dom_section := Some (bytes ''4'')\<rparr>, 4) \<and>
   troff_parse_loop (\<lambda>k. True) static_trie (bytes ''.TH "A" "4"'' @ [0] @ bytes ''zz'') 14 0 0 empty_dom 0 =
   troff_parse_loop (\<lambda>k. True) static_trie (bytes ''.TH "A" "4"'' @ [0] @ bytes ''zz'') 14 12 12
     (empty_dom\<lparr>dom_root := Some \<lparr>node_text = Some (bytes ''"A" "4"'')\<rparr>,
                         dom_title := Some (bytes ''A''), dom_section := Some (bytes ''4'')\<rparr>) 4\<close>
proof -
  let ?m = \<open>bytes ''.TH "A" "4"'' @ [0] @ bytes ''zz''\<close>
  have h1: "14 \<le> length ?m" "(0::nat) \<le> 11" "(11::nat) < 14" "?m ! 11 = 0"
    by (simp_all add: bytes_def)
  have h2: "\<forall>i. 0 \<le> i \<and> i < 11 \<longrightarrow> ?m ! i \<noteq> 0 \<and> ?m ! i \<noteq> 0x0a"
    by (rule all_nth_by_take) (simp_all add: bytes_def)
  have ev: \<open>parse_line (\<lambda>k. True) static_trie ?m 14 0 0 empty_dom 0 =
     (Inr 11, empty_dom\<lparr>dom_root := Some \<lparr>node_text = Some (bytes ''"A" "4"'')\<rparr>,
                         dom_title := Some (bytes ''A''), dom_section := Some (bytes ''4'')\<rparr>, 4)\<close>
    by (simp add: parser_defs)
  from nul_ends_line[OF h1 h2, where ok = "\<lambda>k. True" and trie = static_trie and dm = empty_dom and k = 0]
  have "\<forall>eol dm' k'. parse_line (\<lambda>k. True) static_trie ?m 14 0 0 empty_dom 0 = (Inr eol, dm', k') \<longrightarrow>
          eol = 11 \<and>
          troff_parse_loop (\<lambda>k. True) static_trie ?m 14 0 0 empty_dom 0 =
          troff_parse_loop (\<lambda>k. True) static_trie ?m 14 (11 + 1) (11 + 1) dm' k'"
    by blast
  from this[rule_format, OF ev] ev show ?thesis by simp
qed

section \<open>The trie and macro classification\<close>

lemma wf_zero: "wf_node zero_node"
  by (simp add: zero_node_def)

lemma find_zero: "trie_find zero_node s = None"
  by (cases s) (simp_all add: zero_node_def)

lemma wf_len: "wf_node n \<Longrightarrow> length (node_next n) = 0x80"
  by (cases n) simp

lemma wf_child: "wf_node n \<Longrightarrow> i < 0x80 \<Longrightarrow> node_next n ! i = Some c \<Longrightarrow> wf_node c"
  by (cases n) (auto simp: all_set_conv_all_nth split: option.splits)

lemma wf_update:
  "wf_node n \<Longrightarrow> wf_node c \<Longrightarrow> wf_node (Troffnode ((node_next n)[i := Some c]) (node_ttype n))"
  by (cases n) (auto dest!: set_update_subset_insert[THEN subsetD])

lemma sint_byte: "sint (b :: byte) < 0 \<longleftrightarrow> 0x80 \<le> unat b"
proof -
  have lt: "unat b < 256" using unsigned_less[of b, where ?'a = nat] by simp
  have "sint b < 0 \<longleftrightarrow> bit b 7" using bit_last_iff[of b] by simp
  also have "\<dots> \<longleftrightarrow> bit (unat b) 7" by (simp add: bit_unsigned_iff)
  also have "\<dots> \<longleftrightarrow> odd (unat b div 128)" by (simp add: bit_iff_odd)
  also have "\<dots> \<longleftrightarrow> 128 \<le> unat b"
  proof (cases "unat b < 128")
    case True
    then show ?thesis by simp
  next
    case False
    with lt have "unat b div 128 = 1" by simp
    with False show ?thesis by simp
  qed
  finally show ?thesis by simp
qed


lemma cstr_simps [simp]:
  "cstr [] = []" "cstr (0 # bs) = []" "b \<noteq> 0 \<Longrightarrow> cstr (b # bs) = b # cstr bs"
  by (simp_all add: cstr_def)

lemma trie_find_tag [simp]: "trie_find (Troffnode ns x) [] = x"
  by simp

lemma trie_insert_nil:
  assumes "wf_node n" and "trie_insert ok t [] n k = Inr (n', k')"
  shows "wf_node n' \<and> trie_find n [] = None \<and>
         (\<forall>s'. trie_find n' s' = (if s' = [] then Some t else trie_find n s'))"
proof -
  from assms(2) have tag: "node_ttype n = None" and n': "n' = Troffnode (node_next n) (Some t)"
    by (auto split: if_splits)
  have "wf_node n'" using assms(1) n' by (cases n) simp
  moreover have "trie_find n' s' = (if s' = [] then Some t else trie_find n s')" for s'
    by (cases s') (simp_all add: n')
  ultimately show ?thesis using tag by simp
qed

lemma trie_insert_find:
  "wf_node n \<Longrightarrow> trie_insert ok t s n k = Inr (n', k') \<Longrightarrow>
     wf_node n' \<and> (\<forall>b \<in> set (cstr s). unat b < 0x80) \<and> trie_find n (cstr s) = None \<and>
     (\<forall>s'. trie_find n' s' = (if s' = cstr s then Some t else trie_find n s'))"
proof (induction s arbitrary: n k n' k')
  case Nil
  from trie_insert_nil[OF Nil] show ?case by simp
next
  case (Cons b bs)
  show ?case
  proof (cases "b = 0")
    case True
    with Cons.prems(2) have "trie_insert ok t [] n k = Inr (n', k')" by simp
    from trie_insert_nil[OF Cons.prems(1) this] True show ?thesis by simp
  next
    case nz: False
    from Cons.prems(2) nz have legal: "unat b < 0x80"
      by (auto simp: sint_byte split: if_splits)
    have len: "length (node_next n) = 0x80" using Cons.prems(1) by (rule wf_len)
    define c where "c = (case node_next n ! unat b of None \<Rightarrow> zero_node | Some c \<Rightarrow> c)"
    define k1 where "k1 = (case node_next n ! unat b of None \<Rightarrow> Suc k | Some c \<Rightarrow> k)"
    have wfc: "wf_node c"
      using wf_child[OF Cons.prems(1) legal] by (auto simp: c_def wf_zero split: option.splits)
    have findc: "trie_find c s' = trie_find n (b # s')" for s'
      using legal by (auto simp: c_def find_zero split: option.splits)
    obtain c' where rec: "trie_insert ok t bs c k1 = Inr (c', k')"
      and n': "n' = Troffnode ((node_next n)[unat b := Some c']) (node_ttype n)"
      using Cons.prems(2) nz legal len
      by (auto simp: c_def k1_def sint_byte split: if_splits option.splits sum.splits)
    note ih = Cons.IH[OF wfc rec]
    have wf': "wf_node n'" unfolding n' using Cons.prems(1) ih by (intro wf_update) simp_all
    have find': "trie_find n' s' = (if s' = b # cstr bs then Some t else trie_find n s')" for s'
    proof (cases s')
      case Nil
      then show ?thesis by (simp add: n')
    next
      case (Cons a as)
      show ?thesis
      proof (cases "a = b")
        case True
        with Cons legal len ih findc show ?thesis by (simp add: n')
      next
        case False
        then have "unat a \<noteq> unat b" by (simp add: word_unat_eq_iff)
        with Cons False show ?thesis by (simp add: n')
      qed
    qed
    show ?thesis using wf' ih legal nz findc find' by simp
  qed
qed


lemma registered_simps [simp]:
  "registered [] = []"
  "registered (t # ts) = (if strlen (symbol t) = 0 then registered ts else cstr (symbol t) # registered ts)"
  by (simp_all add: registered_def)

lemma trie_fill_find:
  "wf_node n \<Longrightarrow> trie_fill ok ts n k = Inr (n', k') \<Longrightarrow>
     wf_node n' \<and> distinct (registered ts) \<and>
     (\<forall>t \<in> set ts. strlen (symbol t) \<noteq> 0 \<longrightarrow>
         trie_find n (cstr (symbol t)) = None \<and> trie_find n' (cstr (symbol t)) = Some t) \<and>
     (\<forall>s'. s' \<notin> set (registered ts) \<longrightarrow> trie_find n' s' = trie_find n s')"
proof (induction ts arbitrary: n k)
  case Nil
  then show ?case by simp
next
  case (Cons t ts)
  show ?case
  proof (cases "strlen (symbol t) = 0")
    case True
    with Cons.prems have "trie_fill ok ts n k = Inr (n', k')" by simp
    from Cons.IH[OF Cons.prems(1) this] True show ?thesis by simp
  next
    case False
    with Cons.prems(2) obtain n1 k1 where
      ins: "trie_insert ok t (symbol t) n k = Inr (n1, k1)" and
      rest: "trie_fill ok ts n1 k1 = Inr (n', k')"
      by (auto split: sum.splits)
    let ?c = "cstr (symbol t)"
    from trie_insert_find[OF Cons.prems(1) ins]
    have wf1: "wf_node n1" and none: "trie_find n ?c = None"
      and f1: "\<And>s'. trie_find n1 s' = (if s' = ?c then Some t else trie_find n s')"
      by simp_all
    from Cons.IH[OF wf1 rest]
    have wf': "wf_node n'" and dist: "distinct (registered ts)"
      and mem: "\<And>u. u \<in> set ts \<Longrightarrow> strlen (symbol u) \<noteq> 0 \<Longrightarrow>
                  trie_find n1 (cstr (symbol u)) = None \<and> trie_find n' (cstr (symbol u)) = Some u"
      and other: "\<And>s'. s' \<notin> set (registered ts) \<Longrightarrow> trie_find n' s' = trie_find n1 s'"
      by simp_all
    have fresh: "?c \<notin> set (registered ts)"
    proof
      assume "?c \<in> set (registered ts)"
      then obtain u where "u \<in> set ts" "strlen (symbol u) \<noteq> 0" "cstr (symbol u) = ?c"
        by (auto simp: registered_def)
      with mem[of u] f1[of ?c] show False by simp
    qed
    have "trie_find n (cstr (symbol u)) = None \<and> trie_find n' (cstr (symbol u)) = Some u"
      if "u \<in> set (t # ts)" "strlen (symbol u) \<noteq> 0" for u
    proof (cases "u = t")
      case True
      with none other[OF fresh] f1[of ?c] show ?thesis by simp
    next
      case False
      with that have u: "u \<in> set ts" by simp
      from mem[OF u that(2)] f1[of "cstr (symbol u)"] show ?thesis
        by (auto split: if_splits)
    qed
    moreover have "trie_find n' s' = trie_find n s'" if "s' \<notin> set (registered (t # ts))" for s'
      using that False other[of s'] f1[of s'] by simp
    ultimately show ?thesis using wf' dist fresh False by simp
  qed
qed

lemma get_type_loop_find:
  "wf_node n \<Longrightarrow> \<forall>b \<in> set s. \<not> isspace b \<and> b \<noteq> 0 \<and> b \<noteq> 0x80 \<Longrightarrow>
   isspace w \<or> w = 0 \<Longrightarrow> length s \<le> len \<Longrightarrow>
   \<exists>p. get_type_loop n (pre @ s @ w # rest) (length pre) len = Inr (trie_find n s, p) \<and>
       (trie_find n s \<noteq> None \<longrightarrow> p = length pre + length s)"
proof (induction s arbitrary: n pre len)
  case Nil
  show ?case
  proof (cases "len = 0")
    case True
    then show ?thesis by (simp add: get_type_loop_0)
  next
    case False
    with Nil show ?thesis by (auto simp: get_type_loop_step)
  qed
next
  case (Cons b bs)
  let ?mem = "pre @ b # bs @ w # rest"
  have len: "len \<noteq> 0" and inb: "length pre < length ?mem" and rd: "?mem ! length pre = b"
    using Cons.prems by simp_all
  have plain: "\<not> isspace b" "b \<noteq> 0" "b \<noteq> 0x80" using Cons.prems(2) by simp_all
  have slots: "length (node_next n) = 0x80" using Cons.prems(1) by (rule wf_len)
  show ?case
  proof (cases "unat b < 0x80")
    case False
    moreover have "unat b \<noteq> unat (0x80 :: byte)"
      using plain(3) by (simp only: word_unat_eq_iff not_False_eq_True)
    then have "unat b \<noteq> 0x80" by simp
    ultimately have "unat b > 0x80" by simp
    with False show ?thesis using plain
      by (simp add: get_type_loop_step[OF len inb] rd)
  next
    case True
    show ?thesis
    proof (cases "node_next n ! unat b")
      case None
      with True plain slots show ?thesis
        by (simp add: get_type_loop_step[OF len inb] rd)
    next
      case (Some c)
      have wfc: "wf_node c" using wf_child[OF Cons.prems(1) True Some] .
      have "\<exists>p. get_type_loop c ((pre @ [b]) @ bs @ w # rest) (length (pre @ [b])) (len - 1)
                  = Inr (trie_find c bs, p) \<and>
               (trie_find c bs \<noteq> None \<longrightarrow> p = length (pre @ [b]) + length bs)"
        using Cons.prems by (intro Cons.IH[OF wfc]) auto
      with Some True plain slots show ?thesis
        by (simp add: get_type_loop_step[OF len inb] rd)
    qed
  qed
qed


lemma repeated_not_distinct:
  assumes "i < j" "j < length xs" "P (xs ! i)" "P (xs ! j)" "f (xs ! i) = f (xs ! j)"
  shows "\<not> distinct (map f (filter P xs))"
proof -
  have i: "i < length xs" using assms by simp
  have split: "xs = take i xs @ xs ! i # drop (Suc i) xs" using i by (rule id_take_nth_drop)
  have "xs ! j = drop (Suc i) xs ! (j - Suc i)" using assms by simp
  moreover have "j - Suc i < length (drop (Suc i) xs)" using assms by simp
  ultimately have "xs ! j \<in> set (drop (Suc i) xs)" by (metis nth_mem)
  with assms(4) have "f (xs ! j) \<in> set (map f (filter P (drop (Suc i) xs)))" by simp
  with assms(5) have dup: "f (xs ! i) \<in> set (map f (filter P (drop (Suc i) xs)))" by simp
  have "map f (filter P xs) =
          map f (filter P (take i xs)) @ f (xs ! i) # map f (filter P (drop (Suc i) xs))"
    by (subst split) (simp add: assms(3))
  with dup show ?thesis by simp
qed

lemma trofftrie_duplicate:
  assumes "i < j" "j < length table" "symbol (table ! i) = symbol (table ! j)"
    and "strlen (symbol (table ! i)) \<noteq> 0"
  shows "isl (trofftrie ok table k)"
proof (rule ccontr)
  assume "\<not> isl (trofftrie ok table k)"
  then obtain T k' where "trofftrie ok table k = Inr (T, k')"
    by (cases "trofftrie ok table k") auto
  then have "trie_fill ok table zero_node (Suc k) = Inr (T, k')"
    by (simp add: trofftrie_def split: if_splits)
  from trie_fill_find[OF wf_zero this] have "distinct (registered table)" by simp
  moreover have "\<not> distinct (registered table)"
    unfolding registered_def using assms by (intro repeated_not_distinct[of i j]) simp_all
  ultimately show False by simp
qed

lemma static_built: "trofftrie (\<lambda>k. True) trofftypes 0 = Inr (static_trie, 38)"
  by (simp add: static_trie_def trofftrie_def trofftypes_def mk_def bytes_def strlen_def zero_node_def)

lemma table_plain:
  "\<forall>t \<in> set trofftypes. \<forall>b \<in> set (symbol t). \<not> isspace b \<and> b \<noteq> 0 \<and> b \<noteq> 0x80"
  by (simp add: trofftypes_def mk_def bytes_def isspace_def)

lemma cstr_id: "\<forall>b \<in> set s. b \<noteq> 0 \<Longrightarrow> cstr s = s"
  by (simp add: cstr_def)

lemma static_find:
  "trie_find static_trie s =
     (if s \<in> set (registered trofftypes) then trie_find static_trie s else None)"
  "t \<in> set trofftypes \<Longrightarrow> symbol t \<noteq> [] \<Longrightarrow> trie_find static_trie (symbol t) = Some t"
  "wf_node static_trie"
proof -
  have fill: "trie_fill (\<lambda>k. True) trofftypes zero_node (Suc 0) = Inr (static_trie, 38)"
    using static_built by (simp add: trofftrie_def)
  note F = trie_fill_find[OF wf_zero fill]
  show "wf_node static_trie" using F by simp
  show "trie_find static_trie s =
     (if s \<in> set (registered trofftypes) then trie_find static_trie s else None)"
    using F by (simp add: find_zero)
  assume t: "t \<in> set trofftypes" "symbol t \<noteq> []"
  have c: "cstr (symbol t) = symbol t" using table_plain t(1) by (intro cstr_id) blast
  moreover have "strlen (symbol t) = length (cstr (symbol t))" by (simp add: strlen_def cstr_def)
  ultimately have "strlen (symbol t) \<noteq> 0" using t(2) by simp
  with F t(1) c show "trie_find static_trie (symbol t) = Some t" by auto
qed

lemma registered_symbols: "set (registered trofftypes) \<subseteq> symbol ` set trofftypes"
proof
  fix s assume "s \<in> set (registered trofftypes)"
  then obtain t where t: "t \<in> set trofftypes" "s = cstr (symbol t)"
    by (auto simp: registered_def)
  have "cstr (symbol t) = symbol t" using table_plain t(1) by (intro cstr_id) blast
  with t show "s \<in> symbol ` set trofftypes" by auto
qed

lemma get_type_find:
  assumes "wf_node n" "\<forall>b \<in> set s. \<not> isspace b \<and> b \<noteq> 0 \<and> b \<noteq> 0x80"
    and "isspace w \<or> w = 0" "length s < len"
  shows "\<exists>p. get_type n (pre @ 0x2e # s @ w # rest) (length pre) len = Inr (trie_find n s, p) \<and>
             (trie_find n s \<noteq> None \<longrightarrow> p = length pre + 1 + length s)"
proof -
  have "\<exists>p. get_type_loop n ((pre @ [0x2e]) @ s @ w # rest) (length (pre @ [0x2e])) (len - 1)
            = Inr (trie_find n s, p) \<and>
           (trie_find n s \<noteq> None \<longrightarrow> p = length (pre @ [0x2e]) + length s)"
    using assms by (intro get_type_loop_find) simp_all
  moreover have "get_type n (pre @ 0x2e # s @ w # rest) (length pre) len =
                 get_type_loop n (pre @ 0x2e # s @ w # rest) (length pre + 1) (len - 1)"
    using assms(4) by (simp add: get_type_def rd_def size_dec_def)
  ultimately show ?thesis by simp
qed

text \<open>
  C6, as the code has it. In the trie built from the static table, which is built
  without error when no allocation fails: a line made of \<^verbatim>\<open>.\<close>, the symbol of a
  descriptor of the table with a symbol that is not empty, and then a whitespace or
  NUL byte, classifies as that descriptor, with the scan stopped after the symbol; a
  line whose symbol is not in the table and has no whitespace, no NUL byte and no
  byte 0x80, classifies as "no match"; and \<^verbatim>\<open>trofftrie\<close> fails, whatever the allocator
  does, on a table in which two descriptors have the same symbol, not empty. The
  bound \<open>len\<close> covers the symbol.
\<close>

theorem trie_classifies_symbols:
  "(\<exists>k. trofftrie (\<lambda>k. True) trofftypes 0 = Inr (static_trie, k)) \<and>
   (\<forall>t pre w rest len.
       t \<in> set trofftypes \<and> symbol t \<noteq> [] \<and> (isspace w \<or> w = 0) \<and> length (symbol t) < len \<longrightarrow>
       get_type static_trie (pre @ 0x2e # symbol t @ w # rest) (length pre) len
         = Inr (Some t, length pre + 1 + length (symbol t))) \<and>
   (\<forall>s pre w rest len.
       s \<notin> symbol ` set trofftypes \<and> (\<forall>b \<in> set s. \<not> isspace b \<and> b \<noteq> 0 \<and> b \<noteq> 0x80) \<and>
       (isspace w \<or> w = 0) \<and> length s < len \<longrightarrow>
       (\<exists>p. get_type static_trie (pre @ 0x2e # s @ w # rest) (length pre) len = Inr (None, p))) \<and>
   (\<forall>ok table k i j.
       i < j \<and> j < length table \<and> symbol (table ! i) = symbol (table ! j) \<and>
       strlen (symbol (table ! i)) \<noteq> 0 \<longrightarrow>
       isl (trofftrie ok table k))"
proof (intro conjI allI impI)
  show "\<exists>k. trofftrie (\<lambda>k. True) trofftypes 0 = Inr (static_trie, k)"
    using static_built by blast
next
  fix t pre w rest len
  assume a: "t \<in> set trofftypes \<and> symbol t \<noteq> [] \<and> (isspace w \<or> w = 0) \<and> length (symbol t) < len"
  then have plain: "\<forall>b \<in> set (symbol t). \<not> isspace b \<and> b \<noteq> 0 \<and> b \<noteq> 0x80"
    using table_plain by blast
  from a have f: "trie_find static_trie (symbol t) = Some t" by (simp add: static_find(2))
  from get_type_find[OF static_find(3) plain, of w len pre rest] a f
  show "get_type static_trie (pre @ 0x2e # symbol t @ w # rest) (length pre) len
         = Inr (Some t, length pre + 1 + length (symbol t))"
    by auto
next
  fix s pre w rest len
  assume a: "s \<notin> symbol ` set trofftypes \<and> (\<forall>b \<in> set s. \<not> isspace b \<and> b \<noteq> 0 \<and> b \<noteq> 0x80) \<and>
       (isspace w \<or> w = 0) \<and> length s < len"
  then have "s \<notin> set (registered trofftypes)" using registered_symbols by blast
  then have f: "trie_find static_trie s = None" using static_find(1)[of s] by simp
  from a have plain: "\<forall>b \<in> set s. \<not> isspace b \<and> b \<noteq> 0 \<and> b \<noteq> 0x80" by simp
  from get_type_find[OF static_find(3) plain, of w len pre rest] a f
  show "\<exists>p. get_type static_trie (pre @ 0x2e # s @ w # rest) (length pre) len = Inr (None, p)"
    by auto
next
  fix ok and table :: "trofftype list" and k i j
  assume "i < j \<and> j < length table \<and> symbol (table ! i) = symbol (table ! j) \<and>
       strlen (symbol (table ! i)) \<noteq> 0"
  then show "isl (trofftrie ok table k)" using trofftrie_duplicate by blast
qed


theorem trie_classifies_symbols_witness:
  "get_type static_trie (0x2e # bytes ''TH'' @ 0x20 # bytes ''x'') 0 5 =
     Inr (Some (mk LINE_TH ''TH'' TROFF_STRUCTURE), 3) \<and>
   (\<exists>p. get_type static_trie (0x2e # bytes ''XY'' @ 0x20 # bytes ''x'') 0 5 = Inr (None, p)) \<and>
   isl (trofftrie (\<lambda>k. True) [mk LINE_B ''B'' TROFF_FONT, mk LINE_B ''B'' TROFF_FONT] 0)"
proof -
  note T = trie_classifies_symbols
  from T have A: "\<And>t pre w rest len.
       t \<in> set trofftypes \<and> symbol t \<noteq> [] \<and> (isspace w \<or> w = 0) \<and> length (symbol t) < len \<Longrightarrow>
       get_type static_trie (pre @ 0x2e # symbol t @ w # rest) (length pre) len
         = Inr (Some t, length pre + 1 + length (symbol t))"
    by blast
  from T have B: "\<And>s pre w rest len.
       s \<notin> symbol ` set trofftypes \<and> (\<forall>b \<in> set s. \<not> isspace b \<and> b \<noteq> 0 \<and> b \<noteq> 0x80) \<and>
       (isspace w \<or> w = 0) \<and> length s < len \<Longrightarrow>
       (\<exists>p. get_type static_trie (pre @ 0x2e # s @ w # rest) (length pre) len = Inr (None, p))"
    by blast
  from T have C: "\<And>ok table k i j.
       i < j \<and> j < length table \<and> symbol (table ! i) = symbol (table ! j) \<and>
       strlen (symbol (table ! i)) \<noteq> 0 \<Longrightarrow>
       isl (trofftrie ok table k)"
    by blast
  have a: "get_type static_trie (0x2e # bytes ''TH'' @ 0x20 # bytes ''x'') 0 5 =
     Inr (Some (mk LINE_TH ''TH'' TROFF_STRUCTURE), 3)"
    using A[of "mk LINE_TH ''TH'' TROFF_STRUCTURE" "0x20" 5 "[]" "bytes ''x''"]
    by (simp add: trofftypes_def mk_def bytes_def isspace_def)
  have b: "\<exists>p. get_type static_trie (0x2e # bytes ''XY'' @ 0x20 # bytes ''x'') 0 5 = Inr (None, p)"
    using B[of "bytes ''XY''" "0x20" 5 "[]" "bytes ''x''"]
    by (simp add: trofftypes_def mk_def bytes_def isspace_def)
  have c: "isl (trofftrie (\<lambda>k. True) [mk LINE_B ''B'' TROFF_FONT, mk LINE_B ''B'' TROFF_FONT] 0)"
    using C[of 0 1 "[mk LINE_B ''B'' TROFF_FONT, mk LINE_B ''B'' TROFF_FONT]" "\<lambda>k. True" 0]
    by (simp add: mk_def bytes_def strlen_def)
  from a b c show ?thesis by simp
qed

text \<open>
  C6 as the claim states it fails where a symbol holds a NUL byte: the four bytes
  \<^verbatim>\<open>T\<close>, \<^verbatim>\<open>H\<close>, NUL, \<^verbatim>\<open>X\<close> are not whitespace and are not a symbol of the table, and
  the line classifies as \<^verbatim>\<open>TH\<close>, because a NUL ends the symbol.
\<close>

theorem nul_symbol_classified:
  "[0x54, 0x48, 0, 0x58] \<notin> symbol ` set trofftypes \<and>
   \<not> isspace 0x54 \<and> \<not> isspace 0x48 \<and> \<not> isspace 0 \<and> \<not> isspace 0x58 \<and>
   get_type static_trie [0x2e, 0x54, 0x48, 0, 0x58, 0x20] 0 6 =
     Inr (Some (mk LINE_TH ''TH'' TROFF_STRUCTURE), 3)"
  by (simp add: parser_defs)

section \<open>Title lines and the result of the parse\<close>



















lemma loop_done: "\<not> off < mlen \<Longrightarrow> troff_parse_loop ok trie mem mlen off line dm k = (Inr (), dm, k)"
  by (subst troff_parse_loop.simps) simp

lemma loop_next:
  "off < mlen \<Longrightarrow> parse_line ok trie mem mlen off off dm k = (Inr eol, dm', k') \<Longrightarrow> off \<le> eol \<Longrightarrow>
   troff_parse_loop ok trie mem mlen off off dm k =
   troff_parse_loop ok trie mem mlen (eol + 1) (eol + 1) dm' k'"
  by (subst troff_parse_loop.simps) (simp add: Let_def)

lemma loop_error:
  "off < mlen \<Longrightarrow> parse_line ok trie mem mlen off off dm k = (Inl e, dm', k') \<Longrightarrow>
   troff_parse_loop ok trie mem mlen off off dm k = (Inl e, dm', k')"
  by (subst troff_parse_loop.simps) (simp add: Let_def)












section \<open>The mappings of a session\<close>

text \<open>
  A file that passed the signature test of \<^verbatim>\<open>map_troff_data\<close> begins with the bytes
  1f 8b, and \<open>256 * 0x1f + 0x8b\<close> is 15 modulo 31: \<^verbatim>\<open>inflate\<close> never answers
  \<^verbatim>\<open>Z_STREAM_END\<close> on it, so the zlib variant of \<^verbatim>\<open>map_gzipped_data\<close> always leaves by
  its first \<^verbatim>\<open>return NULL\<close> after one \<^verbatim>\<open>munmap\<close>.
\<close>

lemma le32_page_pad: "4 \<le> length bs \<Longrightarrow> le32 (page_pad bs) (length bs - 4) = le32 bs (length bs - 4)"
  by (simp add: le32_def nth_page_pad)

lemma magic_page_pad: "3 \<le> length bs \<Longrightarrow> has_gzip_magic (page_pad bs) = has_gzip_magic bs"
proof -
  assume l: "3 \<le> length bs"
  have "0 < length bs" "1 < length bs" "2 < length bs" using l by linarith+
  then have "page_pad bs ! 0 = bs ! 0" "page_pad bs ! 1 = bs ! 1" "page_pad bs ! 2 = bs ! 2"
    by (simp_all only: nth_page_pad)
  then show ?thesis unfolding has_gzip_magic_def by simp
qed

lemma msize_zero: "(ulen + pgsize - 1) div pgsize * pgsize \<noteq> 0 \<longleftrightarrow> ulen \<noteq> 0"
  by (auto simp: pgsize_def)

lemma inflate_finish_gzip:
  "has_gzip_magic bs \<Longrightarrow> 2 \<le> n \<Longrightarrow> inflate_finish e (take n bs) ubuf ulen = None"
  by (simp add: inflate_finish_def zlib_header_ok_def has_gzip_magic_def)

lemma map_gzipped_data_zlib_gzip:
  "has_gzip_magic (r_bytes buf) \<Longrightarrow> 2 \<le> len \<Longrightarrow>
   map_gzipped_data_zlib e buf len ubuf ulen st = ((None, len), munmap buf st)"
  by (simp add: map_gzipped_data_zlib_def inflate_finish_gzip Let_def)

lemma inflate_into_addr: "inflate_into res ubuf ulen = Some filled \<Longrightarrow> r_addr filled = r_addr ubuf"
  by (auto simp: inflate_into_def split: option.splits if_splits)

lemma map_gzipped_data_vm:
  assumes "has_gzip_magic (r_bytes buf)" "2 \<le> len"
  shows "snd (map_gzipped_data v e buf len ubuf ulen st) = munmap buf st \<and>
         (case fst (fst (map_gzipped_data v e buf len ubuf ulen st)) of
            None \<Rightarrow> True | Some filled \<Rightarrow> r_addr filled = r_addr ubuf)"
proof (cases v)
  case Zlib
  then show ?thesis using assms by (simp add: map_gzipped_data_def map_gzipped_data_zlib_gzip)
next
  case Libdeflate
  then show ?thesis
    by (auto simp: map_gzipped_data_def map_gzipped_data_deflate_def libdeflate_gzip_decompress_def
        Let_def dest: inflate_into_addr split: option.splits)
qed

lemma map_troff_data_unfold:
  assumes "file_stat e" "18 \<le> length (file_data e)" "map_file_ok e"
  shows "map_troff_data v e st =
     (let len = length (file_data e);
          buf = \<lparr>r_addr = length (vm_mapped st), r_bytes = page_pad (file_data e)\<rparr>;
          st1 = st\<lparr>vm_mapped := vm_mapped st @ [length (vm_mapped st)]\<rparr>
      in if has_gzip_magic (file_data e)
         then
           (let ulen = le32 (file_data e) (len - 4);
                msize = (ulen + pgsize - 1) div pgsize * pgsize
            in if map_anon_ok e \<and> ulen \<noteq> 0
               then
                 (let ubuf = \<lparr>r_addr = Suc (length (vm_mapped st)), r_bytes = replicate msize 0\<rparr>;
                      st2 = st1\<lparr>vm_mapped := vm_mapped st1 @ [Suc (length (vm_mapped st))]\<rparr>
                  in case map_gzipped_data v e buf len ubuf ulen st2 of
                       ((None, len'), st3) \<Rightarrow> (Inl DecompressFailed, munmap ubuf st3)
                     | ((Some filled, len'), st3) \<Rightarrow> (Inr (filled, len'), st3))
               else (Inl MapFailed, munmap buf st1))
         else (Inr (buf, len), st1))"
proof -
  have m: "(page_pad (file_data e) ! 0 = 0x1f \<and> page_pad (file_data e) ! 1 = 0x8b
            \<and> page_pad (file_data e) ! 2 = 0x08) = has_gzip_magic (file_data e)"
    using magic_page_pad [of "file_data e"] assms(2) unfolding has_gzip_magic_def by simp
  have l: "le32 (page_pad (file_data e)) (length (file_data e) - 4)
           = le32 (file_data e) (length (file_data e) - 4)"
    using assms(2) by (intro le32_page_pad) linarith
  have z: "\<And>u. ((u + pgsize - 1) div pgsize * pgsize \<noteq> 0) = (u \<noteq> 0)"
    by (rule msize_zero)
  have not18: "\<not> length (file_data e) < 18" using assms(2) by linarith
  show ?thesis
    unfolding map_troff_data_def mmap_def Let_def
    apply (simp only: assms not18 not_True_eq_False if_False if_True prod.case option.case
        region.select_convs m l z vm.select_convs vm.update_convs length_append list.size)
    apply (simp add: m l del: One_nat_def)
    done
qed

lemma map_troff_data_vm:
  "vm_mapped (snd (map_troff_data v e st)) = vm_mapped st @ loader_mappings e (length (vm_mapped st)) \<and>
   (case fst (map_troff_data v e st) of
      Inl err \<Rightarrow> vm_unmapped (snd (map_troff_data v e st))
                   = vm_unmapped st @ loader_mappings e (length (vm_mapped st))
    | Inr (buf, len) \<Rightarrow> vm_unmapped (snd (map_troff_data v e st)) @ [r_addr buf]
                   = vm_unmapped st @ loader_mappings e (length (vm_mapped st)))"
proof (cases "file_stat e \<and> 18 \<le> length (file_data e) \<and> map_file_ok e")
  case False
  then show ?thesis
    by (auto simp: map_troff_data_def loader_mappings_def mmap_def Let_def)
next
  case True
  note u = map_troff_data_unfold [of e v st]
  show ?thesis
  proof (cases "has_gzip_magic (file_data e) \<and> map_anon_ok e
                \<and> le32 (file_data e) (length (file_data e) - 4) \<noteq> 0")
    case False
    then show ?thesis using True
      by (auto simp: u loader_mappings_def Let_def munmap_def)
  next
    case anon: True
    define buf where "buf = \<lparr>r_addr = length (vm_mapped st), r_bytes = page_pad (file_data e)\<rparr>"
    define ulen where "ulen = le32 (file_data e) (length (file_data e) - 4)"
    define ubuf where "ubuf = \<lparr>r_addr = Suc (length (vm_mapped st)),
                               r_bytes = replicate ((ulen + pgsize - 1) div pgsize * pgsize) 0\<rparr>"
    define st2 where "st2 = st\<lparr>vm_mapped := vm_mapped st @ [length (vm_mapped st), Suc (length (vm_mapped st))]\<rparr>"
    define res where "res = map_gzipped_data v e buf (length (file_data e)) ubuf ulen st2"
    have bm: "has_gzip_magic (r_bytes buf)" using anon True by (simp add: buf_def magic_page_pad)
    have len2: "2 \<le> length (file_data e)" using True by linarith
    have g: "snd res = munmap buf st2"
            "case fst (fst res) of None \<Rightarrow> True | Some filled \<Rightarrow> r_addr filled = r_addr ubuf"
      using map_gzipped_data_vm [OF bm len2, of v e ubuf ulen st2] by (simp_all add: res_def)
    have m: "map_troff_data v e st =
               (case res of
                  ((None, len'), st3) \<Rightarrow> (Inl DecompressFailed, munmap ubuf st3)
                | ((Some filled, len'), st3) \<Rightarrow> (Inr (filled, len'), st3))"
      unfolding res_def buf_def ubuf_def ulen_def st2_def using True anon
      by (simp add: u Let_def del: One_nat_def)
    have lm: "loader_mappings e (length (vm_mapped st))
                = [length (vm_mapped st), Suc (length (vm_mapped st))]"
      using True anon by (simp add: loader_mappings_def)
    obtain r len' st3 where res: "res = ((r, len'), st3)" by (metis prod.exhaust)
    have st3: "st3 = munmap buf st2" using g(1) res by simp
    show ?thesis
    proof (cases r)
      case None
      then show ?thesis
        by (simp add: m res st3 lm munmap_def st2_def buf_def ubuf_def)
    next
      case (Some filled)
      then have "r_addr filled = r_addr ubuf" using g(2) res by simp
      then show ?thesis using Some
        by (simp add: m res st3 lm munmap_def st2_def buf_def ubuf_def)
    qed
  qed
qed

text \<open>
  C4 (every mapping of a session is released exactly once on every exit path).
  For either variant of \<^verbatim>\<open>map_gzipped_data\<close> and whatever the outcomes of the calls
  outside the program, \<^verbatim>\<open>manloop\<close> adds to the mappings created exactly the
  mappings of the session, and adds the same addresses, each once, to the mappings
  released. A session that starts with nothing mapped therefore ends with every
  mapping released exactly once and none held.
\<close>

theorem session_releases_each_mapping_once:
  "vm_mapped (snd (manloop v e st)) = vm_mapped st @ session_mappings e (length (vm_mapped st)) \<and>
   vm_unmapped (snd (manloop v e st)) = vm_unmapped st @ session_mappings e (length (vm_mapped st)) \<and>
   distinct (session_mappings e n) \<and>
   released_once (snd (manloop v e vm0)) \<and> held (snd (manloop v e vm0)) = []"
proof -
  have sm: "\<And>n. session_mappings e n = (if file_open e then loader_mappings e n else [])"
    by (simp add: session_mappings_def)
  have a: "\<And>st. vm_mapped (snd (manloop v e st)) = vm_mapped st @ session_mappings e (length (vm_mapped st))
        \<and> vm_unmapped (snd (manloop v e st)) = vm_unmapped st @ session_mappings e (length (vm_mapped st))"
  proof -
    fix st
    show "vm_mapped (snd (manloop v e st)) = vm_mapped st @ session_mappings e (length (vm_mapped st))
        \<and> vm_unmapped (snd (manloop v e st)) = vm_unmapped st @ session_mappings e (length (vm_mapped st))"
    proof (cases "file_open e")
      case False
      then show ?thesis by (simp add: manloop_def get_troff_data_def sm)
    next
      case True
      obtain r st1 where r: "map_troff_data v e st = (r, st1)" by (metis prod.exhaust)
      note l = map_troff_data_vm [of v e st]
      show ?thesis
      proof (cases r)
        case (Inl err)
        then show ?thesis using l True r by (simp add: manloop_def get_troff_data_def sm)
      next
        case (Inr p)
        obtain buf len where p: "p = (buf, len)" by (metis prod.exhaust)
        show ?thesis using l True r Inr p
          by (simp add: manloop_def get_troff_data_def sm munmap_def Let_def)
      qed
    qed
  qed
  have d: "\<And>n. distinct (session_mappings e n)"
    by (simp add: session_mappings_def loader_mappings_def)
  have "released_once (snd (manloop v e vm0)) \<and> held (snd (manloop v e vm0)) = []"
    using a [of vm0] d [of 0] by (simp add: released_once_def held_def vm0_def)
  then show ?thesis using a [of st] d [of n] by simp
qed

text \<open>
  The exit paths, each in a session that starts with nothing mapped: a plain page
  shown until \<^verbatim>\<open>q\<close>; a gzip file inflated by libdeflate; the same file refused by
  zlib; a gzip file that libdeflate cannot inflate; the anonymous \<^verbatim>\<open>mmap\<close> refused;
  a page without a title; a plane that cannot be created.
\<close>

theorem session_releases_each_mapping_once_witness:
  "manloop Libdeflate (session_env small_page []) vm0 =
     (0, \<lparr>vm_mapped = [0], vm_unmapped = [0]\<rparr>) \<and>
   manloop Libdeflate (session_env gz_file small_page) vm0 =
     (0, \<lparr>vm_mapped = [0, 1], vm_unmapped = [0, 1]\<rparr>) \<and>
   manloop Zlib (session_env gz_file small_page) vm0 =
     (- 1, \<lparr>vm_mapped = [0, 1], vm_unmapped = [0, 1]\<rparr>) \<and>
   manloop Libdeflate ((session_env gz_file small_page)\<lparr>gunzip := (\<lambda>input. None)\<rparr>) vm0 =
     (- 1, \<lparr>vm_mapped = [0, 1], vm_unmapped = [0, 1]\<rparr>) \<and>
   manloop Libdeflate ((session_env gz_file small_page)\<lparr>map_anon_ok := False\<rparr>) vm0 =
     (- 1, \<lparr>vm_mapped = [0], vm_unmapped = [0]\<rparr>) \<and>
   manloop Libdeflate (session_env (replicate 18 0x20) []) vm0 =
     (- 1, \<lparr>vm_mapped = [0], vm_unmapped = [0]\<rparr>) \<and>
   manloop Libdeflate ((session_env small_page [])\<lparr>plane_ok := False\<rparr>) vm0 =
     (- 1, \<lparr>vm_mapped = [0], vm_unmapped = [0]\<rparr>) \<and>
   released_once (snd (manloop Zlib (session_env gz_file small_page) vm0))"
  using session_releases_each_mapping_once [of Zlib "session_env gz_file small_page" vm0 0]
  by (simp add: loader_defs parser_defs nth_append)


section \<open>The line after a NUL byte\<close>

text \<open>
  When a line that a NUL byte at \<open>z\<close> ends does not end the parse, the loop goes on
  with the line that starts at \<open>z + 1\<close>: it is done when no byte is left there,
  it returns the error of that line when the line fails, and it goes on behind
  that line otherwise.
\<close>

lemma nul_next_line:
  assumes "mlen \<le> length mem" and "off \<le> z" and "z < mlen" and "mem ! z = 0"
    and "\<forall>i. off \<le> i \<and> i < z \<longrightarrow> mem ! i \<noteq> 0 \<and> mem ! i \<noteq> 0x0a"
    and "parse_line ok trie mem mlen off off dm k = (Inr eol, dm', k')"
  shows "eol = z"
    and "\<not> z + 1 < mlen \<Longrightarrow>
           troff_parse_loop ok trie mem mlen off off dm k = (Inr (), dm', k')"
    and "z + 1 < mlen \<Longrightarrow>
           parse_line ok trie mem mlen (z + 1) (z + 1) dm' k' = (Inl e, d2, k2) \<Longrightarrow>
           troff_parse_loop ok trie mem mlen off off dm k = (Inl e, d2, k2)"
    and "z + 1 < mlen \<Longrightarrow>
           parse_line ok trie mem mlen (z + 1) (z + 1) dm' k' = (Inr eol2, d2, k2) \<Longrightarrow>
           z + 1 \<le> eol2 \<Longrightarrow>
           troff_parse_loop ok trie mem mlen off off dm k =
             troff_parse_loop ok trie mem mlen (eol2 + 1) (eol2 + 1) d2 k2"
proof -
  from nul_ends_line [OF assms(1-5), of trie ok dm k] assms(6)
  have e: "eol = z"
    and n: "troff_parse_loop ok trie mem mlen off off dm k =
            troff_parse_loop ok trie mem mlen (z + 1) (z + 1) dm' k'"
    by blast+
  show "eol = z" by (rule e)
  show "troff_parse_loop ok trie mem mlen off off dm k = (Inr (), dm', k')"
    if "\<not> z + 1 < mlen"
    unfolding n using that by (rule loop_done)
  show "troff_parse_loop ok trie mem mlen off off dm k = (Inl e, d2, k2)"
    if "z + 1 < mlen" "parse_line ok trie mem mlen (z + 1) (z + 1) dm' k' = (Inl e, d2, k2)"
    unfolding n using that by (rule loop_error)
  show "troff_parse_loop ok trie mem mlen off off dm k =
          troff_parse_loop ok trie mem mlen (eol2 + 1) (eol2 + 1) d2 k2"
    if "z + 1 < mlen" "parse_line ok trie mem mlen (z + 1) (z + 1) dm' k' = (Inr eol2, d2, k2)"
       "z + 1 \<le> eol2"
    unfolding n using that by (rule loop_next)
qed

section \<open>The reads of the classifier\<close>

text \<open>
  \<^verbatim>\<open>get_type\<close> reads no byte at or after its bound: when the bound lies inside
  the buffer, no read leaves the buffer, and the result does not depend on the
  bytes that follow the bound.
\<close>

lemma get_type_loop_within_bound:
  "ws + len \<le> length mem \<Longrightarrow>
   get_type_loop trie (mem @ ext) ws len = get_type_loop trie mem ws len \<and>
   get_type_loop trie mem ws len \<noteq> Inl ReadOutOfBounds"
proof (induction len arbitrary: trie ws)
  case 0
  show ?case by (simp add: get_type_loop_0)
next
  case (Suc len)
  have inb: "ws < length mem" "ws < length (mem @ ext)" and rd: "(mem @ ext) ! ws = mem ! ws"
    using Suc.prems by (simp_all add: nth_append)
  have ne: "Suc len \<noteq> 0" by simp
  note a = get_type_loop_step[OF ne inb(1), of trie]
  note b = get_type_loop_step[OF ne inb(2), of trie, unfolded rd]
  show ?case
  proof (cases "node_next trie ! unat (mem ! ws)")
    case None
    then show ?thesis unfolding a b by simp
  next
    case (Some c)
    have "get_type_loop c (mem @ ext) (ws + 1) len = get_type_loop c mem (ws + 1) len \<and>
          get_type_loop c mem (ws + 1) len \<noteq> Inl ReadOutOfBounds"
      using Suc.prems by (intro Suc.IH) simp
    with Some show ?thesis unfolding a b by simp
  qed
qed

lemma get_type_within_bound:
  assumes "len \<noteq> 0" "ws + len \<le> length mem"
  shows "get_type trie (mem @ ext) ws len = get_type trie mem ws len \<and>
         get_type trie mem ws len \<noteq> Inl ReadOutOfBounds"
proof -
  have inb: "ws < length mem" using assms by simp
  then have rd: "rd (mem @ ext) ws = Inr (mem ! ws)" "rd mem ws = Inr (mem ! ws)"
    by (simp_all add: rd_def nth_append)
  have "get_type_loop trie (mem @ ext) (ws + 1) (len - 1) = get_type_loop trie mem (ws + 1) (len - 1) \<and>
        get_type_loop trie mem (ws + 1) (len - 1) \<noteq> Inl ReadOutOfBounds"
    using assms by (intro get_type_loop_within_bound) simp
  then show ?thesis using assms(1) by (simp add: get_type_def rd size_dec_def)
qed

end
